theory Spec2Isabelle
  imports Main
begin

section \<open>Time values and the calendar of the platform's Date\<close>

text \<open>
  The scheduler computes with JavaScript \<^verbatim>\<open>Date\<close> objects. A valid Date holds a time value:
  an integer number of milliseconds since 1970-01-01T00:00:00Z. The functions below follow the
  definitions of ECMA-262 (section "Date Objects": Day, TimeWithinDay, DayFromYear, YearFromTime,
  MonthFromTime, DateFromTime, MakeTime, MakeDay, MakeDate, MakeFullYear, TimeClip).

  The local time zone of the platform is the function the standard calls LocalTZA: \<open>zone t True\<close>
  is the offset from UTC, in milliseconds, in force at the instant \<open>t\<close>, and \<open>zone t False\<close> is
  the offset that the platform gives to the local time \<open>t\<close> (for a local time that a clock change
  repeats or skips, the standard asks for the offset before the change). With daylight saving
  the two depend on \<open>t\<close>; \<open>fixedOffset tza\<close> is a zone without clock changes.
\<close>

type_synonym TimeZone = "int \<Rightarrow> bool \<Rightarrow> int"

definition msPerDay :: int where "msPerDay = 86400000"
definition msPerHour :: int where "msPerHour = 3600000"
definition msPerMinute :: int where "msPerMinute = 60000"
definition msPerSecond :: int where "msPerSecond = 1000"

definition Day :: "int \<Rightarrow> int" where
  "Day t = t div msPerDay"

definition TimeWithinDay :: "int \<Rightarrow> int" where
  "TimeWithinDay t = t mod msPerDay"

definition isLeapYear :: "int \<Rightarrow> bool" where
  "isLeapYear y = (y mod 4 = 0 \<and> (y mod 100 \<noteq> 0 \<or> y mod 400 = 0))"

definition DaysInYear :: "int \<Rightarrow> int" where
  "DaysInYear y = (if isLeapYear y then 366 else 365)"

definition DayFromYear :: "int \<Rightarrow> int" where
  "DayFromYear y =
     365 * (y - 1970) + (y - 1969) div 4 - (y - 1901) div 100 + (y - 1601) div 400"

text \<open>
  ECMA-262 defines YearFromTime(t) as the largest \<open>y\<close> with \<open>TimeFromYear y \<le> t\<close>. The
  executable form below guesses the year from the mean length of a Gregorian year and corrects
  the guess by one; \<open>YearFromDay_bounds\<close> and \<open>YearFromDay_unique\<close> show that it is that \<open>y\<close>.
\<close>

definition YearFromDay :: "int \<Rightarrow> int" where
  "YearFromDay d =
     (let y = 1970 + (400 * d) div 146097
      in if d < DayFromYear y then y - 1
         else if DayFromYear (y + 1) \<le> d then y + 1
         else y)"

definition YearFromTime :: "int \<Rightarrow> int" where
  "YearFromTime t = YearFromDay (Day t)"

definition InLeapYear :: "int \<Rightarrow> int" where
  "InLeapYear t = (if isLeapYear (YearFromTime t) then 1 else 0)"

definition DayWithinYear :: "int \<Rightarrow> int" where
  "DayWithinYear t = Day t - DayFromYear (YearFromTime t)"

definition MonthFromTime :: "int \<Rightarrow> int" where
  "MonthFromTime t =
     (let d = DayWithinYear t; l = InLeapYear t
      in if d < 31 then 0
         else if d < 59 + l then 1
         else if d < 90 + l then 2
         else if d < 120 + l then 3
         else if d < 151 + l then 4
         else if d < 181 + l then 5
         else if d < 212 + l then 6
         else if d < 243 + l then 7
         else if d < 273 + l then 8
         else if d < 304 + l then 9
         else if d < 334 + l then 10
         else 11)"

definition DateFromTime :: "int \<Rightarrow> int" where
  "DateFromTime t =
     (let d = DayWithinYear t; l = InLeapYear t; m = MonthFromTime t
      in if m = 0 then d + 1
         else if m = 1 then d - 30
         else if m = 2 then d - 58 - l
         else if m = 3 then d - 89 - l
         else if m = 4 then d - 119 - l
         else if m = 5 then d - 150 - l
         else if m = 6 then d - 180 - l
         else if m = 7 then d - 211 - l
         else if m = 8 then d - 242 - l
         else if m = 9 then d - 272 - l
         else if m = 10 then d - 303 - l
         else d - 333 - l)"

definition HourFromTime :: "int \<Rightarrow> int" where
  "HourFromTime t = (t div msPerHour) mod 24"

definition MinFromTime :: "int \<Rightarrow> int" where
  "MinFromTime t = (t div msPerMinute) mod 60"

definition SecFromTime :: "int \<Rightarrow> int" where
  "SecFromTime t = (t div msPerSecond) mod 60"

definition msFromTime :: "int \<Rightarrow> int" where
  "msFromTime t = t mod msPerSecond"

text \<open>Number of days of year \<open>y\<close> that precede its month \<open>mn\<close> (0 = January).\<close>

definition daysBeforeMonth :: "int \<Rightarrow> int \<Rightarrow> int" where
  "daysBeforeMonth y mn =
     (let l = (if isLeapYear y then 1 else 0)
      in if mn = 0 then 0
         else if mn = 1 then 31
         else if mn = 2 then 59 + l
         else if mn = 3 then 90 + l
         else if mn = 4 then 120 + l
         else if mn = 5 then 151 + l
         else if mn = 6 then 181 + l
         else if mn = 7 then 212 + l
         else if mn = 8 then 243 + l
         else if mn = 9 then 273 + l
         else if mn = 10 then 304 + l
         else 334 + l)"

text \<open>Length of month \<open>mn\<close> (0 = January) of year \<open>y\<close>.\<close>

definition DaysInMonth :: "int \<Rightarrow> int \<Rightarrow> int" where
  "DaysInMonth y mn =
     (if mn = 1 then (if isLeapYear y then 29 else 28)
      else if mn = 3 \<or> mn = 5 \<or> mn = 8 \<or> mn = 10 then 30
      else 31)"

text \<open>
  MakeDay: months outside 0..11 carry into the year, and the day of the month is added as a
  plain offset, so a day that the month does not have runs on into the following month.
\<close>

definition MakeDay :: "int \<Rightarrow> int \<Rightarrow> int \<Rightarrow> int" where
  "MakeDay year month date =
     (let ym = year + month div 12; mn = month mod 12
      in DayFromYear ym + daysBeforeMonth ym mn + date - 1)"

definition MakeTime :: "int \<Rightarrow> int \<Rightarrow> int \<Rightarrow> int \<Rightarrow> int" where
  "MakeTime hour minute sec ms =
     hour * msPerHour + minute * msPerMinute + sec * msPerSecond + ms"

definition MakeDate :: "int \<Rightarrow> int \<Rightarrow> int" where
  "MakeDate day time = day * msPerDay + time"

definition MakeFullYear :: "int \<Rightarrow> int" where
  "MakeFullYear year = (if 0 \<le> year \<and> year \<le> 99 then 1900 + year else year)"

text \<open>TimeClip: \<open>None\<close> is the Invalid Date (a time value of NaN).\<close>

definition TimeClip :: "int \<Rightarrow> int option" where
  "TimeClip t = (if \<bar>t\<bar> > 8640000000000000 then None else Some t)"

definition fixedOffset :: "int \<Rightarrow> TimeZone" where
  "fixedOffset tza = (\<lambda>t isUTC. tza)"

text \<open>LocalTime(t) = t + LocalTZA(t, true) and UTC(t) = t - LocalTZA(t, false).\<close>

definition LocalTime :: "TimeZone \<Rightarrow> int \<Rightarrow> int" where
  "LocalTime zone t = t + zone t True"

definition UTC :: "TimeZone \<Rightarrow> int \<Rightarrow> int" where
  "UTC zone t = t - zone t False"

text \<open>\<^verbatim>\<open>new Date(year, monthIndex, day, hours, minutes, seconds)\<close>, in local time.\<close>

definition newDateFields :: "TimeZone \<Rightarrow> int \<Rightarrow> int \<Rightarrow> int \<Rightarrow> int \<Rightarrow> int \<Rightarrow> int \<Rightarrow> int option" where
  "newDateFields zone year monthIndex day hours minutes seconds =
     TimeClip (UTC zone (MakeDate (MakeDay (MakeFullYear year) monthIndex day)
                                 (MakeTime hours minutes seconds 0)))"

definition getFullYear :: "TimeZone \<Rightarrow> int \<Rightarrow> int" where
  "getFullYear zone t = YearFromTime (LocalTime zone t)"

definition getMonth :: "TimeZone \<Rightarrow> int \<Rightarrow> int" where
  "getMonth zone t = MonthFromTime (LocalTime zone t)"

definition getDate :: "TimeZone \<Rightarrow> int \<Rightarrow> int" where
  "getDate zone t = DateFromTime (LocalTime zone t)"

definition getHours :: "TimeZone \<Rightarrow> int \<Rightarrow> int" where
  "getHours zone t = HourFromTime (LocalTime zone t)"

definition getMinutes :: "TimeZone \<Rightarrow> int \<Rightarrow> int" where
  "getMinutes zone t = MinFromTime (LocalTime zone t)"

definition getSeconds :: "TimeZone \<Rightarrow> int \<Rightarrow> int" where
  "getSeconds zone t = SecFromTime (LocalTime zone t)"

definition getMilliseconds :: "TimeZone \<Rightarrow> int \<Rightarrow> int" where
  "getMilliseconds zone t = msFromTime (LocalTime zone t)"

section \<open>Strings: decimal numbers and ISO 8601 text\<close>

text \<open>\<^verbatim>\<open>Array.prototype.findIndex\<close>; \<open>None\<close> is the result -1.\<close>

fun findIndex :: "('a \<Rightarrow> bool) \<Rightarrow> 'a list \<Rightarrow> nat option" where
  "findIndex P [] = None"
| "findIndex P (x # xs) = (if P x then Some 0 else map_option Suc (findIndex P xs))"

definition decimalDigits :: string where
  "decimalDigits = ''0123456789''"

definition digitChar :: "int \<Rightarrow> char" where
  "digitChar k = (if 0 \<le> k \<and> k < 10 then decimalDigits ! nat k else CHR ''?'')"

definition digitValue :: "char \<Rightarrow> int option" where
  "digitValue c = map_option int (findIndex (\<lambda>d. d = c) decimalDigits)"

text \<open>The value of a string of decimal digits, read from the left with accumulator \<open>acc\<close>.\<close>

fun decimalValue :: "int \<Rightarrow> string \<Rightarrow> int option" where
  "decimalValue acc [] = Some acc"
| "decimalValue acc (c # cs) =
     (case digitValue c of
        None \<Rightarrow> None
      | Some v \<Rightarrow> decimalValue (10 * acc + v) cs)"

text \<open>
  \<^verbatim>\<open>Number(s)\<close> on the strings the application stores: a run of decimal digits has its decimal
  value and the empty string is 0. \<open>None\<close> is NaN; the other spellings that \<^verbatim>\<open>Number\<close> accepts
  (signs, fractions, exponents, radix prefixes, surrounding blanks) are not modelled and read
  as NaN here.
\<close>

definition Number :: "string \<Rightarrow> int option" where
  "Number s = decimalValue 0 s"

text \<open>\<^verbatim>\<open>s.split(sep)\<close> for a one-character separator.\<close>

fun splitString :: "char \<Rightarrow> string \<Rightarrow> string list" where
  "splitString sep [] = [[]]"
| "splitString sep (c # cs) =
     (if c = sep then [] # splitString sep cs
      else (case splitString sep cs of
              [] \<Rightarrow> [[c]]
            | p # ps \<Rightarrow> (c # p) # ps))"

text \<open>The \<open>n\<close> low decimal digits of \<open>k\<close>, zero-padded (\<^verbatim>\<open>padStart(n, '0')\<close> of a short number).\<close>

fun padDigits :: "nat \<Rightarrow> int \<Rightarrow> string" where
  "padDigits 0 k = []"
| "padDigits (Suc n) k = padDigits n (k div 10) @ [digitChar (k mod 10)]"

text \<open>The decimal digits of a number that is not negative, as \<^verbatim>\<open>String(n)\<close> prints them.\<close>

function decimalText :: "int \<Rightarrow> string" where
  "decimalText k =
     (if k < 10 then [digitChar k]
      else decimalText (k div 10) @ [digitChar (k mod 10)])"
  by pat_completeness auto
termination
  by (relation "measure nat") auto

declare decimalText.simps [simp del]

definition showInt :: "int \<Rightarrow> string" where
  "showInt k = (if k < 0 then CHR ''-'' # decimalText (- k) else decimalText k)"

text \<open>
  \<^verbatim>\<open>Date.prototype.toISOString\<close> of a valid time value: \<^verbatim>\<open>YYYY-MM-DDTHH:mm:ss.sssZ\<close> in UTC,
  with the expanded year \<^verbatim>\<open>+YYYYYY\<close> or \<^verbatim>\<open>-YYYYYY\<close> outside the years 0..9999.
\<close>

definition isoYear :: "int \<Rightarrow> string" where
  "isoYear y =
     (if 0 \<le> y \<and> y \<le> 9999 then padDigits 4 y
      else if y < 0 then CHR ''-'' # padDigits 6 (- y)
      else CHR ''+'' # padDigits 6 y)"

definition toISOString :: "int \<Rightarrow> string" where
  "toISOString t =
     isoYear (YearFromTime t) @ ''-'' @ padDigits 2 (MonthFromTime t + 1) @ ''-''
       @ padDigits 2 (DateFromTime t) @ ''T'' @ padDigits 2 (HourFromTime t) @ '':''
       @ padDigits 2 (MinFromTime t) @ '':'' @ padDigits 2 (SecFromTime t) @ ''.''
       @ padDigits 3 (msFromTime t) @ ''Z''"

text \<open>
  The year field of an ISO 8601 date-time string: the text before the first \<^verbatim>\<open>-\<close> that
  follows the optional sign.
\<close>

definition isoYearText :: "string \<Rightarrow> string" where
  "isoYearText s =
     (case s of
        [] \<Rightarrow> []
      | c # cs \<Rightarrow>
          if c = CHR ''-'' \<or> c = CHR ''+'' then c # takeWhile (\<lambda>x. x \<noteq> CHR ''-'') cs
          else takeWhile (\<lambda>x. x \<noteq> CHR ''-'') s)"

definition isoYearComponent :: "string \<Rightarrow> int option" where
  "isoYearComponent s =
     (case isoYearText s of
        [] \<Rightarrow> None
      | c # cs \<Rightarrow>
          if c = CHR ''-'' then map_option uminus (decimalValue 0 cs)
          else if c = CHR ''+'' then decimalValue 0 cs
          else decimalValue 0 (c # cs))"

text \<open>
  \<^verbatim>\<open>new Date(s)\<close> for a string \<open>s\<close>: the time value when \<open>s\<close> is the text that
  \<^verbatim>\<open>toISOString\<close> writes for it, and the Invalid Date (\<open>None\<close>) otherwise. The other date
  formats that the platform's parser accepts are not modelled; the application stores only
  strings written by \<^verbatim>\<open>toISOString\<close>.
\<close>

definition isoFields :: "string \<Rightarrow> (int \<times> string) option" where
  "isoFields s =
     (case s of
        [] \<Rightarrow> None
      | c # cs \<Rightarrow>
          if c = CHR ''-'' then map_option (\<lambda>y. (- y, drop 6 cs)) (decimalValue 0 (take 6 cs))
          else if c = CHR ''+'' then map_option (\<lambda>y. (y, drop 6 cs)) (decimalValue 0 (take 6 cs))
          else map_option (\<lambda>y. (y, drop 4 s)) (decimalValue 0 (take 4 s)))"

definition parseDate :: "string \<Rightarrow> int option" where
  "parseDate s =
     (case isoFields s of
        None \<Rightarrow> None
      | Some (y, r) \<Rightarrow>
          (case (decimalValue 0 (take 2 (drop 1 r)), decimalValue 0 (take 2 (drop 4 r)),
                 decimalValue 0 (take 2 (drop 7 r)), decimalValue 0 (take 2 (drop 10 r)),
                 decimalValue 0 (take 2 (drop 13 r)), decimalValue 0 (take 3 (drop 16 r))) of
             (Some mo, Some d, Some h, Some mi, Some sec, Some ms) \<Rightarrow>
               (let t = MakeDate (MakeDay y (mo - 1) d) (MakeTime h mi sec ms)
                in if toISOString t = s then TimeClip t else None)
           | _ \<Rightarrow> None))"

section \<open>The occurrence calculator\<close>

text \<open>
  \<^verbatim>\<open>const [month, day] = birthdayMMDD.split('-').map(Number)\<close>. \<open>None\<close> stands for a month or
  day that is NaN (or missing), which makes every Date built from it invalid.
\<close>

definition parseMMDD :: "string \<Rightarrow> (int \<times> int) option" where
  "parseMMDD birthdayMMDD =
     (case map Number (splitString CHR ''-'' birthdayMMDD) of
        Some month # Some day # _ \<Rightarrow> Some (month, day)
      | _ \<Rightarrow> None)"

text \<open>
  \<open>getNextBirthdayDate\<close> of \<^verbatim>\<open>scheduler.ts\<close>, for a valid reference Date \<open>ref\<close>. The result
  \<open>None\<close> is the Invalid Date. A comparison with an Invalid Date is false, so an invalid
  candidate for the reference year is returned as it is.
\<close>

definition getNextBirthdayDate :: "TimeZone \<Rightarrow> string \<Rightarrow> int \<Rightarrow> int option" where
  "getNextBirthdayDate zone birthdayMMDD ref =
     (case parseMMDD birthdayMMDD of
        None \<Rightarrow> None
      | Some (month, day) \<Rightarrow>
          (let thisYear = getFullYear zone ref
           in case newDateFields zone thisYear (month - 1) day 9 0 0 of
                None \<Rightarrow> None
              | Some thisYearBday \<Rightarrow>
                  if thisYearBday \<le> ref
                  then newDateFields zone (thisYear + 1) (month - 1) day 9 0 0
                  else Some thisYearBday))"

text \<open>
  The local time value of 09:00:00.000 on day \<open>day\<close> of month \<open>month\<close> (1 = January) of
  year \<open>y\<close>, counted as the Date constructor counts it.
\<close>

definition nineOClock :: "int \<Rightarrow> int \<Rightarrow> int \<Rightarrow> int" where
  "nineOClock y month day = MakeDate (MakeDay y (month - 1) day) (MakeTime 9 0 0 0)"

text \<open>
  A local time that the clock of the zone shows: the instant that the platform gives to it
  has this local time again. A local time that a clock change skips is not kept.
\<close>

definition keepsLocalTime :: "TimeZone \<Rightarrow> int \<Rightarrow> bool" where
  "keepsLocalTime zone t \<longleftrightarrow> LocalTime zone (UTC zone t) = t"

text \<open>No two offsets of the zone differ by more than \<open>v\<close> milliseconds.\<close>

definition offsetsWithin :: "TimeZone \<Rightarrow> int \<Rightarrow> bool" where
  "offsetsWithin zone v \<longleftrightarrow> (\<forall>s a t b. zone s a - zone t b \<le> v)"

text \<open>The local calendar year does not decrease as time passes.\<close>

definition yearNeverGoesBack :: "TimeZone \<Rightarrow> bool" where
  "yearNeverGoesBack zone \<longleftrightarrow> (\<forall>s t. s \<le> t \<longrightarrow> getFullYear zone s \<le> getFullYear zone t)"

text \<open>
  References for which the Date constructor takes the year as it is and stays inside the
  range of time values: the constructor reads the years 0..99 as 1900..1999, and no Date
  lies beyond the year 275760. The offsets of the zone are at most a day.
\<close>

definition ordinaryReference :: "TimeZone \<Rightarrow> int \<Rightarrow> bool" where
  "ordinaryReference zone ref \<longleftrightarrow>
     (\<forall>t b. \<bar>zone t b\<bar> \<le> msPerDay)
     \<and> 100 \<le> getFullYear zone ref \<and> getFullYear zone ref \<le> 275758"

section \<open>Data model (\<^verbatim>\<open>types.ts\<close>)\<close>

record Contact =
  contact_id :: string
  contact_name :: string
  contact_phone :: string
  birthday :: string
  birthdayFull :: string
  contact_createdAt :: string

datatype MessageStatus = Scheduled | Sending | Sent | Delivered | Failed | Cancelled

record ScheduledMessage =
  message_id :: string
  contactId :: string
  contactName :: string
  phone :: string
  messageBody :: string
  scheduledFor :: string
  status :: MessageStatus
  notificationSid :: "string option"
  errorMessage :: "string option"
  sentAt :: "string option"
  deliveredAt :: "string option"
  createdAt :: string
  year :: int

record AppData =
  contacts :: "Contact list"
  messages :: "ScheduledMessage list"
  notifyServiceSid :: "string option"

record SessionCredentials =
  accountSid :: string
  authToken :: string
  messagingServiceSid :: string
  credNotifyServiceSid :: "string option"

text \<open>
  Of a client bundle only the credentials are data of the application; the three API handles
  are the provider, whose answers are inputs of the model (see \<open>Env\<close>).
\<close>

record TwilioClientBundle =
  credentials :: SessionCredentials

record SmsResult =
  success :: bool
  resultSid :: "string option"
  error :: "string option"

text \<open>
  The fields of a \<^verbatim>\<open>Partial<ScheduledMessage>\<close> that the callers of \<open>updateMessage\<close> pass.
  \<open>None\<close>: the key is absent. \<open>Some v\<close>: the key is present with value \<open>v\<close>, where a
  present key may carry \<^verbatim>\<open>undefined\<close> (\<open>Some None\<close>), which the spread writes over the
  old value.
\<close>

record MessageUpdates =
  upd_status :: "MessageStatus option"
  upd_notificationSid :: "string option option"
  upd_errorMessage :: "string option option"
  upd_sentAt :: "string option option"
  upd_deliveredAt :: "string option option"

definition noUpdates :: MessageUpdates where
  "noUpdates = \<lparr>upd_status = None, upd_notificationSid = None, upd_errorMessage = None,
                 upd_sentAt = None, upd_deliveredAt = None\<rparr>"

section \<open>Environment and state\<close>

text \<open>What the provider answers to a \<^verbatim>\<open>createService\<close> call.\<close>

datatype ServiceResponse =
    ServiceResult "string option"  \<comment> \<open>a response; the \<^verbatim>\<open>sid\<close> of its result, if any\<close>
  | ServiceThrew

text \<open>What the provider answers to a \<^verbatim>\<open>createNotification\<close> call.\<close>

datatype NotificationResponse =
    NoResult  \<comment> \<open>a response without \<^verbatim>\<open>result\<close>\<close>
  | NotificationResult "string option"  \<comment> \<open>a result; its \<^verbatim>\<open>sid\<close>, if defined and not null\<close>
  | ThrewApiError int string  \<comment> \<open>an \<^verbatim>\<open>ApiError\<close>: status code, body as text\<close>
  | ThrewError string  \<comment> \<open>any other thrown value: its message, or \<^verbatim>\<open>String(error)\<close>\<close>

text \<open>
  The inputs that the code reads from outside: the time zone, the clock, the random
  sources and the provider. Each read takes the next value: \<open>tick\<close> of the state counts the
  reads made so far, and the \<open>k\<close>-th read of any source returns that source's value at \<open>k\<close>.
  \<open>randomIndex\<close> is \<^verbatim>\<open>Math.floor(Math.random() * n)\<close> before reduction to \<open>0..n-1\<close>.
\<close>

record Env =
  localTZA :: TimeZone
  clock :: "nat \<Rightarrow> int"
  uuid :: "nat \<Rightarrow> string"
  randomIndex :: "nat \<Rightarrow> nat"
  createService :: "nat \<Rightarrow> ServiceResponse"
  createNotification :: "nat \<Rightarrow> NotificationResponse"

text \<open>
  The state of the process: the data file (an absent file reads as the default data), the
  two module-level maps of \<^verbatim>\<open>sms-service.ts\<close>, the pending \<^verbatim>\<open>setTimeout\<close> callbacks (each
  is the delivered-update of one message id), and the read counter.
\<close>

record World =
  dataFile :: AppData
  activeClients :: "(string \<times> TwilioClientBundle) list"
  sessionNotifyServiceSids :: "string \<rightharpoonup> string"
  timers :: "string list"
  tick :: nat

text \<open>A call either returns a value or throws.\<close>

datatype 'a completion = Returned 'a | Threw string

definition newDate :: "Env \<Rightarrow> World \<Rightarrow> int \<times> World" where
  "newDate env w = (clock env (tick w), w\<lparr>tick := Suc (tick w)\<rparr>)"

definition uuidv4 :: "Env \<Rightarrow> World \<Rightarrow> string \<times> World" where
  "uuidv4 env w = (uuid env (tick w), w\<lparr>tick := Suc (tick w)\<rparr>)"

definition randomBelow :: "Env \<Rightarrow> nat \<Rightarrow> World \<Rightarrow> nat \<times> World" where
  "randomBelow env n w = (randomIndex env (tick w) mod n, w\<lparr>tick := Suc (tick w)\<rparr>)"

text \<open>
  JavaScript truthiness of an optional string: \<open>whenTruthy v\<close> is the string when \<open>v\<close> is
  defined and not empty.
\<close>

definition whenTruthy :: "string option \<Rightarrow> string option" where
  "whenTruthy v = (case v of None \<Rightarrow> None | Some s \<Rightarrow> if s = [] then None else Some s)"

section \<open>The store (\<^verbatim>\<open>store.ts\<close>)\<close>

definition DEFAULT_DATA :: AppData where
  "DEFAULT_DATA = \<lparr>contacts = [], messages = [], notifyServiceSid = None\<rparr>"

definition loadData :: "World \<Rightarrow> AppData" where
  "loadData w = dataFile w"

definition saveData :: "AppData \<Rightarrow> World \<Rightarrow> World" where
  "saveData d w = w\<lparr>dataFile := d\<rparr>"

definition addContact :: "Contact \<Rightarrow> World \<Rightarrow> World" where
  "addContact contact w =
     (let d = loadData w in saveData (d\<lparr>contacts := contacts d @ [contact]\<rparr>) w)"

definition removeContact :: "string \<Rightarrow> World \<Rightarrow> bool \<times> World" where
  "removeContact i w =
     (let d = loadData w
      in case findIndex (\<lambda>c. contact_id c = i) (contacts d) of
           None \<Rightarrow> (False, w)
         | Some idx \<Rightarrow>
             (True,
              saveData
                (d\<lparr>contacts := take idx (contacts d) @ drop (Suc idx) (contacts d),
                   messages :=
                     map (\<lambda>m. if contactId m = i \<and> status m = Scheduled
                               then m\<lparr>status := Cancelled\<rparr> else m)
                       (messages d)\<rparr>)
                w))"

definition getContacts :: "World \<Rightarrow> Contact list" where
  "getContacts w = contacts (loadData w)"

definition getContact :: "string \<Rightarrow> World \<Rightarrow> Contact option" where
  "getContact i w = find (\<lambda>c. contact_id c = i) (contacts (loadData w))"

definition addMessage :: "ScheduledMessage \<Rightarrow> World \<Rightarrow> World" where
  "addMessage message w =
     (let d = loadData w in saveData (d\<lparr>messages := messages d @ [message]\<rparr>) w)"

definition applyUpdates :: "ScheduledMessage \<Rightarrow> MessageUpdates \<Rightarrow> ScheduledMessage" where
  "applyUpdates m u =
     m\<lparr>status := (case upd_status u of None \<Rightarrow> status m | Some v \<Rightarrow> v),
       notificationSid := (case upd_notificationSid u of None \<Rightarrow> notificationSid m | Some v \<Rightarrow> v),
       errorMessage := (case upd_errorMessage u of None \<Rightarrow> errorMessage m | Some v \<Rightarrow> v),
       sentAt := (case upd_sentAt u of None \<Rightarrow> sentAt m | Some v \<Rightarrow> v),
       deliveredAt := (case upd_deliveredAt u of None \<Rightarrow> deliveredAt m | Some v \<Rightarrow> v)\<rparr>"

definition updateMessage :: "string \<Rightarrow> MessageUpdates \<Rightarrow> World \<Rightarrow> World" where
  "updateMessage i updates w =
     (let d = loadData w
      in case findIndex (\<lambda>m. message_id m = i) (messages d) of
           None \<Rightarrow> w
         | Some idx \<Rightarrow>
             saveData (d\<lparr>messages := (messages d)[idx := applyUpdates (messages d ! idx) updates]\<rparr>) w)"

definition getMessages :: "World \<Rightarrow> ScheduledMessage list" where
  "getMessages w = messages (loadData w)"

definition getNotifyServiceSid :: "World \<Rightarrow> string option" where
  "getNotifyServiceSid w = notifyServiceSid (loadData w)"

definition setNotifyServiceSid :: "string \<Rightarrow> World \<Rightarrow> World" where
  "setNotifyServiceSid sid w = (let d = loadData w in saveData (d\<lparr>notifyServiceSid := Some sid\<rparr>) w)"

section \<open>The notification gateway (\<^verbatim>\<open>sms-service.ts\<close>)\<close>

definition getFirstActiveClient :: "World \<Rightarrow> TwilioClientBundle option" where
  "getFirstActiveClient w = (case activeClients w of [] \<Rightarrow> None | (k, b) # rest \<Rightarrow> Some b)"

definition getSessionClient :: "string \<Rightarrow> World \<Rightarrow> TwilioClientBundle option" where
  "getSessionClient sessionId w = map_of (activeClients w) sessionId"

definition rememberServiceSid :: "string \<Rightarrow> string \<Rightarrow> World \<Rightarrow> World" where
  "rememberServiceSid sessionId sid w =
     w\<lparr>sessionNotifyServiceSids := (sessionNotifyServiceSids w)(sessionId \<mapsto> sid)\<rparr>"

definition ensureNotifyService ::
    "Env \<Rightarrow> TwilioClientBundle \<Rightarrow> string \<Rightarrow> World \<Rightarrow> string option \<times> World" where
  "ensureNotifyService env bundle sessionId w =
     (case whenTruthy (sessionNotifyServiceSids w sessionId) of
        Some cached \<Rightarrow> (Some cached, w)
      | None \<Rightarrow>
          (case whenTruthy (credNotifyServiceSid (credentials bundle)) of
             Some preset \<Rightarrow> (Some preset, rememberServiceSid sessionId preset w)
           | None \<Rightarrow>
               (case whenTruthy (getNotifyServiceSid w) of
                  Some stored \<Rightarrow> (Some stored, rememberServiceSid sessionId stored w)
                | None \<Rightarrow>
                    if messagingServiceSid (credentials bundle) = [] then (None, w)
                    else (let w1 = w\<lparr>tick := Suc (tick w)\<rparr>
                          in case createService env (tick w) of
                               ServiceThrew \<Rightarrow> (None, w1)
                             | ServiceResult r \<Rightarrow>
                                 (case whenTruthy r of
                                    Some sid \<Rightarrow>
                                      (Some sid,
                                       setNotifyServiceSid sid (rememberServiceSid sessionId sid w1))
                                  | None \<Rightarrow> (None, w1))))))"

definition sendBirthdaySms ::
    "Env \<Rightarrow> TwilioClientBundle option \<Rightarrow> string \<Rightarrow> string \<Rightarrow> string \<Rightarrow> string \<Rightarrow> World
       \<Rightarrow> SmsResult \<times> World" where
  "sendBirthdaySms env bundle sessionId cId phoneE164 body w =
     (case bundle of
        None \<Rightarrow>
          (let (now, w1) = newDate env w
           in (\<lparr>success = True, resultSid = Some (''SIM_'' @ showInt now), error = None\<rparr>, w1))
      | Some b \<Rightarrow>
          (let (serviceSid, w1) = ensureNotifyService env b sessionId w
           in if serviceSid = None
              then (\<lparr>success = False, resultSid = None,
                     error = Some ''Notify service not available''\<rparr>, w1)
              else let w2 = w1\<lparr>tick := Suc (tick w1)\<rparr>
                   in case createNotification env (tick w1) of
                        NotificationResult sid \<Rightarrow>
                          (\<lparr>success = True, resultSid = sid, error = None\<rparr>, w2)
                      | NoResult \<Rightarrow>
                          (\<lparr>success = False, resultSid = None,
                            error = Some ''No result in notification response''\<rparr>, w2)
                      | ThrewApiError statusCode errorBody \<Rightarrow>
                          if statusCode = 400 \<or> statusCode = 403
                          then (\<lparr>success = False, resultSid = None,
                                 error = Some (''SMS failed ('' @ showInt statusCode
                                   @ ''): This may be a trial account restriction. Ensure the recipient number is verified in your account. ''
                                   @ errorBody)\<rparr>, w2)
                          else (\<lparr>success = False, resultSid = None,
                                 error = Some (''SMS API error ('' @ showInt statusCode @ ''): ''
                                   @ errorBody)\<rparr>, w2)
                      | ThrewError errMsg \<Rightarrow>
                          (\<lparr>success = False, resultSid = None, error = Some errMsg\<rparr>, w2)))"

section \<open>The scheduler (\<^verbatim>\<open>scheduler.ts\<close>)\<close>

definition BIRTHDAY_MESSAGES :: "string list" where
  "BIRTHDAY_MESSAGES =
     [''Happy Birthday, {{name}}! Wishing you a day filled with joy, laughter, and all the things that make you smile. Have an amazing year ahead!'',
      ''It's your special day, {{name}}! May this birthday bring you endless happiness and wonderful surprises. Cheers to another incredible year!'',
      ''Happy Birthday, {{name}}! Here's to celebrating YOU today. May your day be as wonderful and bright as you are!'',
      ''Wishing you the happiest of birthdays, {{name}}! May all your dreams come true this year. Enjoy every moment of your special day!'',
      ''Happy Birthday, {{name}}! Another year of being awesome starts today. Hope your day is full of cake, fun, and unforgettable memories!'']"

definition isBlank :: "char \<Rightarrow> bool" where
  "isBlank c \<longleftrightarrow> c = CHR '' '' \<or> c = CHR 0x09 \<or> c = CHR 0x0A \<or> c = CHR 0x0B \<or> c = CHR 0x0C
     \<or> c = CHR 0x0D"

definition trim :: "string \<Rightarrow> string" where
  "trim s = rev (dropWhile isBlank (rev (dropWhile isBlank s)))"

text \<open>
  \<^verbatim>\<open>template.replace(/\{\{name\}\}/g, safeName)\<close>: every occurrence of the placeholder, from
  the left. The \<^verbatim>\<open>$\<close> patterns that \<^verbatim>\<open>replace\<close> expands inside the replacement text are
  not modelled (a name is inserted as it is).
\<close>

fun replaceName :: "string \<Rightarrow> string \<Rightarrow> string" where
  "replaceName safeName [] = []"
| "replaceName safeName (c # cs) =
     (if take 8 (c # cs) = ''{{name}}'' then safeName @ replaceName safeName (drop 7 cs)
      else c # replaceName safeName cs)"

definition interpolateName :: "string \<Rightarrow> string \<Rightarrow> string" where
  "interpolateName template name =
     (let safeName = trim (filter (\<lambda>c. c \<noteq> CHR ''<'' \<and> c \<noteq> CHR ''>'') name)
      in replaceName safeName template)"

definition generateBirthdayMessage :: "Env \<Rightarrow> string \<Rightarrow> World \<Rightarrow> string \<times> World" where
  "generateBirthdayMessage env name w =
     (let (k, w1) = randomBelow env (length BIRTHDAY_MESSAGES) w
      in (interpolateName (BIRTHDAY_MESSAGES ! k) name, w1))"

text \<open>
  \<open>scheduleMessagesForContact\<close>. When the next birthday is an Invalid Date its year is NaN,
  which equals no stored year, and \<^verbatim>\<open>toISOString\<close> throws a RangeError inside the object
  literal, after the id has been drawn and before anything is stored.
\<close>

definition scheduleMessagesForContact ::
    "Env \<Rightarrow> string \<Rightarrow> World \<Rightarrow> ScheduledMessage option completion \<times> World" where
  "scheduleMessagesForContact env cId w =
     (case find (\<lambda>c. contact_id c = cId) (getContacts w) of
        None \<Rightarrow> (Returned None, w)
      | Some contact \<Rightarrow>
          (let msgs = getMessages w;
               (now, w1) = newDate env w;
               nextBirthday = getNextBirthdayDate (localTZA env) (birthday contact) now
           in case find (\<lambda>m. contactId m = cId
                              \<and> (case nextBirthday of
                                    None \<Rightarrow> False
                                  | Some nb \<Rightarrow> year m = getFullYear (localTZA env) nb)
                              \<and> status m = Scheduled) msgs of
                Some existing \<Rightarrow> (Returned (Some existing), w1)
              | None \<Rightarrow>
                  (let (body, w2) = generateBirthdayMessage env (contact_name contact) w1;
                       (newId, w3) = uuidv4 env w2
                   in case nextBirthday of
                        None \<Rightarrow> (Threw ''RangeError'', w3)
                      | Some nb \<Rightarrow>
                          (let (created, w4) = newDate env w3;
                               message =
                                 \<lparr>message_id = newId,
                                  contactId = contact_id contact,
                                  contactName = contact_name contact,
                                  phone = contact_phone contact,
                                  messageBody = body,
                                  scheduledFor = toISOString nb,
                                  status = Scheduled,
                                  notificationSid = None,
                                  errorMessage = None,
                                  sentAt = None,
                                  deliveredAt = None,
                                  createdAt = toISOString created,
                                  year = getFullYear (localTZA env) nb\<rparr>
                           in (Returned (Some message), addMessage message w4)))))"

text \<open>The loop of \<open>scheduleAllContacts\<close> over the contacts read at its start.\<close>

fun scheduleAllLoop ::
    "Env \<Rightarrow> Contact list \<Rightarrow> ScheduledMessage list \<Rightarrow> World
       \<Rightarrow> ScheduledMessage list completion \<times> World" where
  "scheduleAllLoop env [] scheduled w = (Returned scheduled, w)"
| "scheduleAllLoop env (contact # rest) scheduled w =
     (case scheduleMessagesForContact env (contact_id contact) w of
        (Threw e, w1) \<Rightarrow> (Threw e, w1)
      | (Returned None, w1) \<Rightarrow> scheduleAllLoop env rest scheduled w1
      | (Returned (Some msg), w1) \<Rightarrow> scheduleAllLoop env rest (scheduled @ [msg]) w1)"

definition scheduleAllContacts :: "Env \<Rightarrow> World \<Rightarrow> ScheduledMessage list completion \<times> World" where
  "scheduleAllContacts env w = scheduleAllLoop env (getContacts w) [] w"

text \<open>
  \<^verbatim>\<open>setTimeout(() => updateMessage(id, {status: 'delivered', deliveredAt: ...}), 5000)\<close>:
  the callback is recorded as pending; \<open>deliveredUpdate\<close> is the callback running.
\<close>

definition setTimeoutDelivered :: "string \<Rightarrow> World \<Rightarrow> World" where
  "setTimeoutDelivered i w = w\<lparr>timers := timers w @ [i]\<rparr>"

definition deliveredUpdate :: "Env \<Rightarrow> string \<Rightarrow> World \<Rightarrow> World" where
  "deliveredUpdate env i w =
     (let (now, w1) = newDate env w
      in updateMessage i
           (noUpdates\<lparr>upd_status := Some Delivered, upd_deliveredAt := Some (Some (toISOString now))\<rparr>)
           w1)"

text \<open>
  The loop of \<open>processDueMessages\<close> over the messages read at the start of the cycle.
  \<open>processDueMessages\<close> is an \<^verbatim>\<open>async\<close> function; here each awaited call completes before
  the next statement runs and nothing else runs in between. A message whose
  \<open>scheduledFor\<close> is no valid date compares false and is skipped.
\<close>

fun processDueLoop ::
    "Env \<Rightarrow> TwilioClientBundle option \<Rightarrow> int \<Rightarrow> ScheduledMessage list \<Rightarrow> World
       \<Rightarrow> unit completion \<times> World" where
  "processDueLoop env bundle now [] w = (Returned (), w)"
| "processDueLoop env bundle now (msg # rest) w =
     (if status msg \<noteq> Scheduled then processDueLoop env bundle now rest w
      else case parseDate (scheduledFor msg) of
             None \<Rightarrow> processDueLoop env bundle now rest w
           | Some scheduledTime \<Rightarrow>
               if scheduledTime \<le> now
               then (let w1 = updateMessage (message_id msg) (noUpdates\<lparr>upd_status := Some Sending\<rparr>) w;
                         (result, w2) =
                           sendBirthdaySms env bundle ''scheduler'' (contactId msg) (phone msg)
                             (messageBody msg) w1
                     in if success result
                        then (let (sentNow, w3) = newDate env w2;
                                  w4 = updateMessage (message_id msg)
                                         (noUpdates\<lparr>upd_status := Some Sent,
                                                    upd_notificationSid := Some (resultSid result),
                                                    upd_sentAt := Some (Some (toISOString sentNow))\<rparr>)
                                         w3;
                                  w5 = setTimeoutDelivered (message_id msg) w4
                              in case find (\<lambda>c. contact_id c = contactId msg) (getContacts w5) of
                                   None \<Rightarrow> processDueLoop env bundle now rest w5
                                 | Some contact \<Rightarrow>
                                     (case scheduleMessagesForContact env (contact_id contact) w5 of
                                        (Threw e, w6) \<Rightarrow> (Threw e, w6)
                                      | (Returned r, w6) \<Rightarrow> processDueLoop env bundle now rest w6))
                        else processDueLoop env bundle now rest
                               (updateMessage (message_id msg)
                                  (noUpdates\<lparr>upd_status := Some Failed,
                                             upd_errorMessage := Some (error result)\<rparr>)
                                  w2))
               else processDueLoop env bundle now rest w)"

definition processDueMessages :: "Env \<Rightarrow> World \<Rightarrow> unit completion \<times> World" where
  "processDueMessages env w =
     (let msgs = getMessages w;
          (now, w1) = newDate env w;
          bundle = getFirstActiveClient w1
      in processDueLoop env bundle now msgs w1)"

section \<open>The handlers of \<^verbatim>\<open>server.ts\<close> that write messages\<close>

text \<open>\<^verbatim>\<open>POST /api/messages/:id/cancel\<close>; the result is the HTTP status.\<close>

definition cancelMessage :: "string \<Rightarrow> World \<Rightarrow> nat \<times> World" where
  "cancelMessage i w =
     (case find (\<lambda>m. message_id m = i) (getMessages w) of
        None \<Rightarrow> (404, w)
      | Some msg \<Rightarrow>
          if status msg \<noteq> Scheduled then (400, w)
          else (200, updateMessage (message_id msg) (noUpdates\<lparr>upd_status := Some Cancelled\<rparr>) w))"

text \<open>\<^verbatim>\<open>DELETE /api/contacts/:id\<close>.\<close>

definition deleteContact :: "string \<Rightarrow> World \<Rightarrow> nat \<times> World" where
  "deleteContact i w = (case removeContact i w of (False, w1) \<Rightarrow> (404, w1) | (True, w1) \<Rightarrow> (200, w1))"

text \<open>
  \<^verbatim>\<open>POST /api/messages/send-now\<close> for the session \<open>sessionId\<close>, with the \<^verbatim>\<open>contactId\<close> and the
  optional \<^verbatim>\<open>messageBody\<close> of the request.
\<close>

definition sendNow :: "Env \<Rightarrow> string \<Rightarrow> string \<Rightarrow> string option \<Rightarrow> World \<Rightarrow> nat \<times> World" where
  "sendNow env sessionId cId bodyParam w =
     (if cId = [] then (400, w)
      else case find (\<lambda>c. contact_id c = cId) (getContacts w) of
             None \<Rightarrow> (404, w)
           | Some contact \<Rightarrow>
               (let (body, w1) = (case whenTruthy bodyParam of
                                    Some given \<Rightarrow> (given, w)
                                  | None \<Rightarrow> generateBirthdayMessage env (contact_name contact) w);
                    (newId, w2) = uuidv4 env w1;
                    (scheduledNow, w3) = newDate env w2;
                    (created, w4) = newDate env w3;
                    (yearNow, w5) = newDate env w4;
                    msgRecord =
                      \<lparr>message_id = newId,
                       contactId = contact_id contact,
                       contactName = contact_name contact,
                       phone = contact_phone contact,
                       messageBody = body,
                       scheduledFor = toISOString scheduledNow,
                       status = Sending,
                       notificationSid = None,
                       errorMessage = None,
                       sentAt = None,
                       deliveredAt = None,
                       createdAt = toISOString created,
                       year = getFullYear (localTZA env) yearNow\<rparr>;
                    w6 = addMessage msgRecord w5;
                    bundle = getSessionClient sessionId w6;
                    (result, w7) =
                      sendBirthdaySms env bundle sessionId (contact_id contact) (contact_phone contact)
                        body w6
                in if success result
                   then (let (sentNow, w8) = newDate env w7;
                             w9 = updateMessage (message_id msgRecord)
                                    (noUpdates\<lparr>upd_status := Some Sent,
                                               upd_notificationSid := Some (resultSid result),
                                               upd_sentAt := Some (Some (toISOString sentNow))\<rparr>)
                                    w8
                         in (200, setTimeoutDelivered (message_id msgRecord) w9))
                   else (500,
                         updateMessage (message_id msgRecord)
                           (noUpdates\<lparr>upd_status := Some Failed,
                                      upd_errorMessage := Some (error result)\<rparr>)
                           w7)))"

section \<open>Sequences of operations\<close>

text \<open>
  The operations that write messages, run one after another: each runs from its start to its
  end before the next starts, a dispatch cycle too (as when each of its sends settles before
  any other handler runs; the next section cuts the cycle at its await). \<open>DeliveredUpdate k\<close>
  is the \<open>k\<close>-th pending timer firing (nothing happens when there is no such timer).
\<close>

datatype Operation =
    EnsureScheduled string
  | ScheduleAll
  | DispatchCycle
  | CancelMessage string
  | DeleteContact string
  | SendNow string string "string option"
  | DeliveredUpdate nat

fun exec :: "Env \<Rightarrow> Operation \<Rightarrow> World \<Rightarrow> World" where
  "exec env (EnsureScheduled cId) w = snd (scheduleMessagesForContact env cId w)"
| "exec env ScheduleAll w = snd (scheduleAllContacts env w)"
| "exec env DispatchCycle w = snd (processDueMessages env w)"
| "exec env (CancelMessage i) w = snd (cancelMessage i w)"
| "exec env (DeleteContact i) w = snd (deleteContact i w)"
| "exec env (SendNow sessionId cId bodyParam) w = snd (sendNow env sessionId cId bodyParam w)"
| "exec env (DeliveredUpdate k) w =
     (if k < length (timers w)
      then deliveredUpdate env (timers w ! k) (w\<lparr>timers := take k (timers w) @ drop (Suc k) (timers w)\<rparr>)
      else w)"

fun run :: "Env \<Rightarrow> Operation list \<Rightarrow> World \<Rightarrow> World" where
  "run env [] w = w"
| "run env (op # ops) w = run env ops (exec env op w)"

section \<open>A dispatch cycle and the operations that land while it waits\<close>

text \<open>
  \<open>processDueMessages\<close> is an \<^verbatim>\<open>async\<close> function. At \<^verbatim>\<open>await sendBirthdaySms(...)\<close> it yields to
  the event loop while the send waits for the provider, and the handlers of the requests
  that arrive and the timers that are due run before the cycle goes on. The functions below
  are the loop of \<open>processDueMessages\<close> cut at that point. A simulated send, and a send
  that fails before any request to the provider, settle without another handler running in
  between; with a bundle, the counter of reads advances during a send exactly when the
  provider is called.
\<close>

record PendingSend =
  pendingBundle :: "TwilioClientBundle option"
  pendingNow :: int
  pendingMsg :: ScheduledMessage  \<comment> \<open>the entry of the list read at the start of the cycle\<close>
  pendingResult :: SmsResult  \<comment> \<open>what the awaited send resolves to\<close>
  pendingRest :: "ScheduledMessage list"  \<comment> \<open>the entries of that list still to visit\<close>

datatype CycleState =
    Finished "unit completion"
  | Awaiting PendingSend

text \<open>The statements of the loop body that follow the await.\<close>

definition settleSend ::
    "Env \<Rightarrow> ScheduledMessage \<Rightarrow> SmsResult \<Rightarrow> World \<Rightarrow> unit completion \<times> World" where
  "settleSend env msg result w =
     (if success result
      then (let (sentNow, w3) = newDate env w;
                w4 = updateMessage (message_id msg)
                       (noUpdates\<lparr>upd_status := Some Sent,
                                  upd_notificationSid := Some (resultSid result),
                                  upd_sentAt := Some (Some (toISOString sentNow))\<rparr>)
                       w3;
                w5 = setTimeoutDelivered (message_id msg) w4
            in case find (\<lambda>c. contact_id c = contactId msg) (getContacts w5) of
                 None \<Rightarrow> (Returned (), w5)
               | Some contact \<Rightarrow>
                   (case scheduleMessagesForContact env (contact_id contact) w5 of
                      (Threw e, w6) \<Rightarrow> (Threw e, w6)
                    | (Returned r, w6) \<Rightarrow> (Returned (), w6)))
      else (Returned (),
            updateMessage (message_id msg)
              (noUpdates\<lparr>upd_status := Some Failed, upd_errorMessage := Some (error result)\<rparr>)
              w))"

text \<open>
  The loop from the entries \<open>msgs\<close> on, up to the next send that waits for the provider.
  As in the source, the status tested is the one of the entry read at the start of the
  cycle, and \<open>updateMessage\<close> writes the store as it is now.
\<close>

fun advanceCycle ::
    "Env \<Rightarrow> TwilioClientBundle option \<Rightarrow> int \<Rightarrow> ScheduledMessage list \<Rightarrow> World
       \<Rightarrow> CycleState \<times> World" where
  "advanceCycle env bundle now [] w = (Finished (Returned ()), w)"
| "advanceCycle env bundle now (msg # rest) w =
     (if status msg \<noteq> Scheduled then advanceCycle env bundle now rest w
      else case parseDate (scheduledFor msg) of
             None \<Rightarrow> advanceCycle env bundle now rest w
           | Some scheduledTime \<Rightarrow>
               if scheduledTime \<le> now
               then (let w1 = updateMessage (message_id msg) (noUpdates\<lparr>upd_status := Some Sending\<rparr>) w;
                         (result, w2) =
                           sendBirthdaySms env bundle ''scheduler'' (contactId msg) (phone msg)
                             (messageBody msg) w1
                     in if bundle \<noteq> None \<and> tick w1 < tick w2
                        then (Awaiting \<lparr>pendingBundle = bundle, pendingNow = now,
                                        pendingMsg = msg, pendingResult = result,
                                        pendingRest = rest\<rparr>, w2)
                        else (case settleSend env msg result w2 of
                                (Threw e, w3) \<Rightarrow> (Finished (Threw e), w3)
                              | (Returned u, w3) \<Rightarrow> advanceCycle env bundle now rest w3))
               else advanceCycle env bundle now rest w)"

text \<open>The start of a cycle, up to its first wait.\<close>

definition startCycle :: "Env \<Rightarrow> World \<Rightarrow> CycleState \<times> World" where
  "startCycle env w =
     (let msgs = getMessages w;
          (now, w1) = newDate env w;
          bundle = getFirstActiveClient w1
      in advanceCycle env bundle now msgs w1)"

text \<open>A waiting cycle goes on when its send has settled, up to its next wait.\<close>

definition resumeCycle :: "Env \<Rightarrow> PendingSend \<Rightarrow> World \<Rightarrow> CycleState \<times> World" where
  "resumeCycle env p w =
     (case settleSend env (pendingMsg p) (pendingResult p) w of
        (Threw e, w1) \<Rightarrow> (Finished (Threw e), w1)
      | (Returned u, w1) \<Rightarrow> advanceCycle env (pendingBundle p) (pendingNow p) (pendingRest p) w1)"

text \<open>
  What the event loop runs, one after another: the scheduler starts a cycle; the \<open>k\<close>-th
  waiting cycle goes on; another operation runs from its start to its end. The state is the
  list of the waiting cycles and the store.
\<close>

datatype Event =
    CycleStarts
  | CycleResumes nat
  | Lands Operation

fun fireEvent :: "Env \<Rightarrow> Event \<Rightarrow> PendingSend list \<times> World \<Rightarrow> PendingSend list \<times> World" where
  "fireEvent env CycleStarts (waiting, w) =
     (case startCycle env w of
        (Finished r, w1) \<Rightarrow> (waiting, w1)
      | (Awaiting p, w1) \<Rightarrow> (waiting @ [p], w1))"
| "fireEvent env (CycleResumes k) (waiting, w) =
     (if k < length waiting
      then (case resumeCycle env (waiting ! k) w of
              (Finished r, w1) \<Rightarrow> (take k waiting @ drop (Suc k) waiting, w1)
            | (Awaiting p, w1) \<Rightarrow> (waiting[k := p], w1))
      else (waiting, w))"
| "fireEvent env (Lands op) (waiting, w) = (waiting, exec env op w)"

fun fireEvents :: "Env \<Rightarrow> Event list \<Rightarrow> PendingSend list \<times> World \<Rightarrow> PendingSend list \<times> World" where
  "fireEvents env [] s = s"
| "fireEvents env (e # es) s = fireEvents env es (fireEvent env e s)"

section \<open>Properties of the stored messages\<close>

text \<open>
  The pairs (subject id, recurrence year) of the messages whose status is \<open>Scheduled\<close>, in
  store order. At most one scheduled message per pair: no pair occurs twice.
\<close>

definition scheduledKeys :: "ScheduledMessage list \<Rightarrow> (string \<times> int) list" where
  "scheduledKeys msgs = map (\<lambda>m. (contactId m, year m)) (filter (\<lambda>m. status m = Scheduled) msgs)"

definition atMostOneScheduled :: "ScheduledMessage list \<Rightarrow> bool" where
  "atMostOneScheduled msgs \<longleftrightarrow> distinct (scheduledKeys msgs)"

text \<open>
  The record that \<open>scheduleMessagesForContact\<close> stores for \<open>contact\<close> and the fire instant
  \<open>nb\<close> when it runs at read counter \<open>k\<close>: the clock is read at \<open>k\<close>, the random index at
  \<open>k + 1\<close>, the id at \<open>k + 2\<close> and the creation time at \<open>k + 3\<close>.
\<close>

definition newMessage :: "Env \<Rightarrow> Contact \<Rightarrow> int \<Rightarrow> nat \<Rightarrow> ScheduledMessage" where
  "newMessage env contact nb k =
     \<lparr>message_id = uuid env (Suc (Suc k)),
      contactId = contact_id contact,
      contactName = contact_name contact,
      phone = contact_phone contact,
      messageBody = interpolateName (BIRTHDAY_MESSAGES ! (randomIndex env (Suc k) mod length BIRTHDAY_MESSAGES))
                      (contact_name contact),
      scheduledFor = toISOString nb,
      status = Scheduled,
      notificationSid = None,
      errorMessage = None,
      sentAt = None,
      deliveredAt = None,
      createdAt = toISOString (clock env (Suc (Suc (Suc k)))),
      year = getFullYear (localTZA env) nb\<rparr>"

text \<open>
  A message that a dispatch cycle reading the clock at \<open>now\<close> takes up: its status is
  \<open>Scheduled\<close> and its fire instant is a valid date not after \<open>now\<close>.
\<close>

definition isDue :: "int \<Rightarrow> ScheduledMessage \<Rightarrow> bool" where
  "isDue now msg \<longleftrightarrow>
     status msg = Scheduled
     \<and> (case parseDate (scheduledFor msg) of None \<Rightarrow> False | Some scheduledTime \<Rightarrow> scheduledTime \<le> now)"

text \<open>
  One pass through the body of the loop of \<open>processDueMessages\<close>, for the message \<open>msg\<close> of
  the list read at the start of the cycle (\<open>processDueLoop_Cons\<close> shows that the loop is this
  body followed by the rest of the loop).
\<close>

definition processDueBody ::
    "Env \<Rightarrow> TwilioClientBundle option \<Rightarrow> int \<Rightarrow> ScheduledMessage \<Rightarrow> World
       \<Rightarrow> unit completion \<times> World" where
  "processDueBody env bundle now msg w =
     (if \<not> isDue now msg then (Returned (), w)
      else (let w1 = updateMessage (message_id msg) (noUpdates\<lparr>upd_status := Some Sending\<rparr>) w;
                (result, w2) =
                  sendBirthdaySms env bundle ''scheduler'' (contactId msg) (phone msg)
                    (messageBody msg) w1
            in if success result
               then (let w5 = setTimeoutDelivered (message_id msg)
                                (updateMessage (message_id msg)
                                   (noUpdates\<lparr>upd_status := Some Sent,
                                              upd_notificationSid := Some (resultSid result),
                                              upd_sentAt := Some (Some (toISOString (clock env (tick w2))))\<rparr>)
                                   (w2\<lparr>tick := Suc (tick w2)\<rparr>))
                     in case find (\<lambda>c. contact_id c = contactId msg) (getContacts w5) of
                          None \<Rightarrow> (Returned (), w5)
                        | Some contact \<Rightarrow>
                            (case scheduleMessagesForContact env (contact_id contact) w5 of
                               (Threw e, w6) \<Rightarrow> (Threw e, w6)
                             | (Returned r, w6) \<Rightarrow> (Returned (), w6)))
               else (Returned (),
                     updateMessage (message_id msg)
                       (noUpdates\<lparr>upd_status := Some Failed, upd_errorMessage := Some (error result)\<rparr>)
                       w2)))"

text \<open>The stored message with id \<open>i\<close> (the first one, as \<open>updateMessage\<close> finds it).\<close>

definition lookupMessage :: "World \<Rightarrow> string \<Rightarrow> ScheduledMessage option" where
  "lookupMessage w i = find (\<lambda>m. message_id m = i) (getMessages w)"

definition statusOf :: "World \<Rightarrow> string \<Rightarrow> MessageStatus option" where
  "statusOf w i = map_option status (lookupMessage w i)"

text \<open>
  The lifecycle: scheduled, then sending, then sent and delivered, or failed; or scheduled,
  then cancelled. \<open>forward s s'\<close>: status \<open>s'\<close> is \<open>s\<close> or comes after it.
\<close>

fun forward :: "MessageStatus \<Rightarrow> MessageStatus \<Rightarrow> bool" where
  "forward Scheduled s' = True"
| "forward Sending s' = (s' = Sending \<or> s' = Sent \<or> s' = Delivered \<or> s' = Failed)"
| "forward Sent s' = (s' = Sent \<or> s' = Delivered)"
| "forward Delivered s' = (s' = Delivered)"
| "forward Failed s' = (s' = Failed)"
| "forward Cancelled s' = (s' = Cancelled)"

text \<open>
  What the operations rely on: message ids are unique, \<^verbatim>\<open>uuidv4\<close> never returns an id that
  is in use nor the same id twice, and a pending delivered-update belongs to a stored
  message that has been sent.
\<close>

definition wellFormed :: "Env \<Rightarrow> World \<Rightarrow> bool" where
  "wellFormed env w \<longleftrightarrow>
     distinct (map message_id (getMessages w))
     \<and> (\<forall>k \<ge> tick w. uuid env k \<notin> message_id ` set (getMessages w))
     \<and> (\<forall>j \<ge> tick w. \<forall>k > j. uuid env j \<noteq> uuid env k)
     \<and> set (timers w) \<subseteq> message_id ` set (getMessages w)
     \<and> (\<forall>i \<in> set (timers w). statusOf w i = Some Sent \<or> statusOf w i = Some Delivered)"

text \<open>Every stored message keeps its id and moves forward in the lifecycle, if at all.\<close>

definition advances :: "World \<Rightarrow> World \<Rightarrow> bool" where
  "advances w w' \<longleftrightarrow>
     tick w \<le> tick w'
     \<and> (\<forall>i s. statusOf w i = Some s \<longrightarrow> (\<exists>s'. statusOf w' i = Some s' \<and> forward s s'))"

section \<open>Example data\<close>

definition exampleContact :: "string \<Rightarrow> Contact" where
  "exampleContact born =
     \<lparr>contact_id = ''c1'', contact_name = ''Ann'', contact_phone = ''+15551230000'',
      birthday = born, birthdayFull = ''1990-'' @ born,
      contact_createdAt = ''2024-01-01T00:00:00.000Z''\<rparr>"

definition exampleMessage :: "string \<Rightarrow> string \<Rightarrow> MessageStatus \<Rightarrow> ScheduledMessage" where
  "exampleMessage i c st =
     \<lparr>message_id = i, contactId = c, contactName = ''Ann'', phone = ''+15551230000'',
      messageBody = ''Happy Birthday, Ann!'', scheduledFor = ''2024-03-15T09:00:00.000Z'',
      status = st, notificationSid = None, errorMessage = None, sentAt = None,
      deliveredAt = None, createdAt = ''2024-01-01T00:00:00.000Z'', year = 2024\<rparr>"

definition exampleBundle :: TwilioClientBundle where
  "exampleBundle =
     \<lparr>credentials = \<lparr>accountSid = ''AC1'', authToken = ''token'', messagingServiceSid = ''MG1'',
                      credNotifyServiceSid = Some ''IS1''\<rparr>\<rparr>"

definition exampleWorld ::
    "string \<Rightarrow> ScheduledMessage list \<Rightarrow> (string \<times> TwilioClientBundle) list \<Rightarrow> World" where
  "exampleWorld born msgs clients =
     \<lparr>dataFile = \<lparr>contacts = [exampleContact born], messages = msgs, notifyServiceSid = None\<rparr>,
      activeClients = clients, sessionNotifyServiceSids = Map.empty, timers = [], tick = 0\<rparr>"

text \<open>
  An environment in a zone of fixed offset \<open>tza\<close> whose clock starts at \<open>start\<close> and advances
  one second per read, and whose provider answers every notification with \<open>answer\<close>.
\<close>

definition exampleEnv :: "int \<Rightarrow> int \<Rightarrow> NotificationResponse \<Rightarrow> Env" where
  "exampleEnv tza start answer =
     \<lparr>localTZA = fixedOffset tza, clock = (\<lambda>k. start + 1000 * int k),
      uuid = (\<lambda>k. replicate (Suc k) CHR ''u''), randomIndex = (\<lambda>k. k),
      createService = (\<lambda>k. ServiceThrew), createNotification = (\<lambda>k. answer)\<rparr>"

text \<open>
  A zone with daylight saving: the offsets of America/New_York from 2023 to 2024, four hours
  west of UTC from 2023-03-12T07:00Z to 2023-11-05T06:00Z and from 2024-03-10T07:00Z to
  2024-11-03T06:00Z, five hours west otherwise. A local time is given the offset before the
  change when the change repeats or skips it.
\<close>

definition easternTime :: TimeZone where
  "easternTime t isUTC =
     (let u = (if isUTC then t else t + 14400000)
      in if (1678604400000 \<le> u \<and> u < 1699164000000) \<or> (1710054000000 \<le> u \<and> u < 1730613600000)
         then - 14400000 else - 18000000)"

text \<open>The example environment in that zone.\<close>

definition easternEnv :: "int \<Rightarrow> NotificationResponse \<Rightarrow> Env" where
  "easternEnv start answer = (exampleEnv 0 start answer)\<lparr>localTZA := easternTime\<rparr>"

text \<open>The message of a completed call, if it returned one.\<close>

definition returnedMessage :: "ScheduledMessage option completion \<Rightarrow> ScheduledMessage option" where
  "returnedMessage r = (case r of Returned v \<Rightarrow> v | Threw e \<Rightarrow> None)"

text \<open>
  A store with two subjects born on 15 March, a scheduled message for each, due on
  2024-03-15 at 09:00 UTC, and one active client; and an environment whose clock starts at
  2024-03-15T09:01:00Z and whose provider accepts every notification.
\<close>

definition secondContact :: Contact where
  "secondContact =
     \<lparr>contact_id = ''c2'', contact_name = ''Bob'', contact_phone = ''+15551230001'',
      birthday = ''03-15'', birthdayFull = ''1985-03-15'',
      contact_createdAt = ''2024-01-01T00:00:00.000Z''\<rparr>"

definition secondMessage :: "MessageStatus \<Rightarrow> ScheduledMessage" where
  "secondMessage st =
     \<lparr>message_id = ''m2'', contactId = ''c2'', contactName = ''Bob'', phone = ''+15551230001'',
      messageBody = ''Happy Birthday, Bob!'', scheduledFor = ''2024-03-15T09:00:00.000Z'',
      status = st, notificationSid = None, errorMessage = None, sentAt = None,
      deliveredAt = None, createdAt = ''2024-01-01T00:00:00.000Z'', year = 2024\<rparr>"

definition raceWorld :: World where
  "raceWorld =
     \<lparr>dataFile = \<lparr>contacts = [exampleContact ''03-15'', secondContact],
                   messages = [exampleMessage ''m1'' ''c1'' Scheduled, secondMessage Scheduled],
                   notifyServiceSid = None\<rparr>,
      activeClients = [(''s1'', exampleBundle)], sessionNotifyServiceSids = Map.empty,
      timers = [], tick = 0\<rparr>"

definition raceEnv :: Env where
  "raceEnv = exampleEnv 0 1710493260000 (NotificationResult (Some ''NT1''))"

lemma div_step:
  fixes a n :: int
  assumes "0 < n"
  shows "(a + 1) div n = a div n + (if (a + 1) mod n = 0 then 1 else 0)"
proof -
  define q r where "q = a div n" and "r = a mod n"
  have a: "a = n * q + r" by (simp add: q_def r_def)
  have b: "0 \<le> r" "r < n" using assms by (simp_all add: r_def)
  show ?thesis
  proof (cases "r = n - 1")
    case True
    then have e: "a + 1 = n * (q + 1) + 0" using a by (simp add: algebra_simps)
    have "(a + 1) div n = q + 1"
      using e assms by (intro int_div_pos_eq [where r = 0]) simp_all
    moreover have "(a + 1) mod n = 0"
      using e assms by (intro int_mod_pos_eq [where q = "q + 1"]) simp_all
    ultimately show ?thesis by (simp add: q_def)
  next
    case False
    then have c: "r + 1 < n" using b by linarith
    have e: "a + 1 = n * q + (r + 1)" using a by linarith
    have "(a + 1) div n = q"
      using e b c by (intro int_div_pos_eq [where r = "r + 1"]) simp_all
    moreover have "(a + 1) mod n = r + 1"
      using e b c by (intro int_mod_pos_eq [where q = "q"]) simp_all
    ultimately show ?thesis using b by (simp add: q_def)
  qed
qed

lemma mod4_shift: "((y::int) - 1968) mod 4 = 0 \<longleftrightarrow> y mod 4 = 0"
  by presburger
lemma mod100_shift: "((y::int) - 1900) mod 100 = 0 \<longleftrightarrow> y mod 100 = 0"
  by presburger
lemma mod400_shift: "((y::int) - 1600) mod 400 = 0 \<longleftrightarrow> y mod 400 = 0"
  by presburger
lemma mod400_100: "(y::int) mod 400 = 0 \<Longrightarrow> y mod 100 = 0"
  by presburger
lemma mod100_4: "(y::int) mod 100 = 0 \<Longrightarrow> y mod 4 = 0"
  by presburger

lemma DayFromYear_Suc: "DayFromYear (y + 1) = DayFromYear y + DaysInYear y"
proof -
  have 1: "(y + 1 - 1969) div 4 = (y - 1969) div 4 + (if y mod 4 = 0 then 1 else 0)"
    using div_step [of 4 "y - 1969"] mod4_shift [of y] by (simp add: algebra_simps)
  have 2: "(y + 1 - 1901) div 100 = (y - 1901) div 100 + (if y mod 100 = 0 then 1 else 0)"
    using div_step [of 100 "y - 1901"] mod100_shift [of y] by (simp add: algebra_simps)
  have 3: "(y + 1 - 1601) div 400 = (y - 1601) div 400 + (if y mod 400 = 0 then 1 else 0)"
    using div_step [of 400 "y - 1601"] mod400_shift [of y] by (simp add: algebra_simps)
  define a b c where "a = (y - 1969) div 4" and "b = (y - 1901) div 100" and "c = (y - 1601) div 400"
  define L4 L100 L400 where "L4 = (y mod 4 = 0)" and "L100 = (y mod 100 = 0)" and "L400 = (y mod 400 = 0)"
  have imp: "L400 \<Longrightarrow> L100" "L100 \<Longrightarrow> L4"
    using mod400_100 [of y] mod100_4 [of y] by (simp_all add: L4_def L100_def L400_def)
  have "365 * (y + 1 - 1970) + (a + (if L4 then 1 else 0)) - (b + (if L100 then 1 else 0))
          + (c + (if L400 then 1 else 0))
        = 365 * (y - 1970) + a - b + c + (if L4 \<and> (\<not> L100 \<or> L400) then 366 else 365)"
    using imp by (cases L4; cases L100; cases L400) simp_all
  then show ?thesis
    unfolding DayFromYear_def DaysInYear_def isLeapYear_def 1 2 3
    unfolding a_def b_def c_def L4_def L100_def L400_def .
qed

lemma div_bounds:
  fixes a n :: int
  assumes "0 < n"
  shows "n * (a div n) \<le> a" and "a < n * (a div n) + n"
proof -
  have "a = n * (a div n) + a mod n" by simp
  moreover have "0 \<le> a mod n" "a mod n < n" using assms by simp_all
  ultimately show "n * (a div n) \<le> a" and "a < n * (a div n) + n"
    by (metis add_increasing2 order_refl , metis add_strict_left_mono)
qed

lemma DayFromYear_lower: "146097 * (y - 1970) - 506 \<le> 400 * DayFromYear y"
proof -
  define a b c where "a = (y - 1969) div 4" and "b = (y - 1901) div 100" and "c = (y - 1601) div 400"
  have "y - 1969 < 4 * a + 4" "100 * b \<le> y - 1901" "y - 1601 < 400 * c + 400"
    unfolding a_def b_def c_def by (rule div_bounds, simp)+
  then show ?thesis
    unfolding DayFromYear_def a_def [symmetric] b_def [symmetric] c_def [symmetric]
    by (simp add: algebra_simps)
qed

lemma DayFromYear_upper: "400 * DayFromYear y \<le> 146097 * (y - 1970) + 589"
proof -
  define a b c where "a = (y - 1969) div 4" and "b = (y - 1901) div 100" and "c = (y - 1601) div 400"
  have "4 * a \<le> y - 1969" "y - 1901 < 100 * b + 100" "400 * c \<le> y - 1601"
    unfolding a_def b_def c_def by (rule div_bounds, simp)+
  then show ?thesis
    unfolding DayFromYear_def a_def [symmetric] b_def [symmetric] c_def [symmetric]
    by (simp add: algebra_simps)
qed

lemma YearFromDay_bounds:
  "DayFromYear (YearFromDay d) \<le> d \<and> d < DayFromYear (YearFromDay d + 1)"
proof -
  define g where "g = (400 * d) div 146097"
  have g: "146097 * g \<le> 400 * d" "400 * d < 146097 * g + 146097"
    unfolding g_def by (rule div_bounds, simp)+
  define lo hi where "lo = DayFromYear (1970 + g - 1)" and "hi = DayFromYear (1970 + g + 1 + 1)"
  have "400 * lo \<le> 146097 * g - 145508"
    using DayFromYear_upper [of "1970 + g - 1"] by (simp add: lo_def algebra_simps)
  then have lo: "lo \<le> d" using g by linarith
  have "146097 * g + 291688 \<le> 400 * hi"
    using DayFromYear_lower [of "1970 + g + 1 + 1"] by (simp add: hi_def algebra_simps)
  then have hi: "d < hi" using g by linarith
  show ?thesis
    unfolding YearFromDay_def g_def [symmetric] Let_def using lo hi
    by (simp add: lo_def hi_def)
qed

lemma DaysInYear_bounds: "365 \<le> DaysInYear y" "DaysInYear y \<le> 366"
  by (simp_all add: DaysInYear_def)

lemma DayFromYear_add: "DayFromYear y + 365 * int n \<le> DayFromYear (y + int n)"
proof (induction n)
  case 0
  then show ?case by simp
next
  case (Suc n)
  have "DayFromYear (y + int (Suc n)) = DayFromYear (y + int n) + DaysInYear (y + int n)"
    using DayFromYear_Suc [of "y + int n"] by (simp add: algebra_simps)
  then show ?case using Suc DaysInYear_bounds(1) [of "y + int n"] by simp
qed

lemma DayFromYear_mono: "y \<le> z \<Longrightarrow> DayFromYear y \<le> DayFromYear z"
  using DayFromYear_add [of y "nat (z - y)"] by simp

lemma YearFromDay_unique:
  assumes "DayFromYear y \<le> d" "d < DayFromYear (y + 1)"
  shows "YearFromDay d = y"
proof (rule ccontr)
  assume ne: "YearFromDay d \<noteq> y"
  define Y where "Y = YearFromDay d"
  have b: "DayFromYear Y \<le> d" "d < DayFromYear (Y + 1)"
    using YearFromDay_bounds [of d] by (simp_all add: Y_def)
  show False
  proof (cases "Y < y")
    case True
    then have "DayFromYear (Y + 1) \<le> DayFromYear y" by (intro DayFromYear_mono) simp
    then show False using b assms by linarith
  next
    case False
    then have "y + 1 \<le> Y" using ne by (simp add: Y_def)
    then have "DayFromYear (y + 1) \<le> DayFromYear Y" by (rule DayFromYear_mono)
    then show False using b assms by linarith
  qed
qed

lemma msPerDay_pos: "0 < msPerDay"
  by (simp add: msPerDay_def)

lemma Day_MakeDate:
  assumes "0 \<le> tm" "tm < msPerDay"
  shows "Day (MakeDate d tm) = d" and "TimeWithinDay (MakeDate d tm) = tm"
proof -
  have e: "MakeDate d tm = msPerDay * d + tm" by (simp add: MakeDate_def mult.commute)
  show "Day (MakeDate d tm) = d"
    unfolding Day_def using e assms by (intro int_div_pos_eq [where r = tm]) simp_all
  show "TimeWithinDay (MakeDate d tm) = tm"
    unfolding TimeWithinDay_def using e assms by (intro int_mod_pos_eq [where q = d]) simp_all
qed

lemma Day_bounds: "Day t * msPerDay \<le> t" "t < (Day t + 1) * msPerDay"
  using div_bounds [OF msPerDay_pos, of t] by (simp_all add: Day_def algebra_simps)

lemma daysBeforeMonth_bounds:
  assumes "0 \<le> mn" "mn \<le> 11"
  shows "0 \<le> daysBeforeMonth y mn" and "daysBeforeMonth y mn + 31 \<le> DaysInYear y"
  using assms by (auto simp: daysBeforeMonth_def DaysInYear_def)

lemma month_index:
  assumes "1 \<le> month" "month \<le> 12"
  shows "(month - 1) div 12 = (0::int)" and "(month - 1) mod 12 = month - 1"
  using assms by simp_all

lemma MakeDay_within_year:
  assumes "1 \<le> month" "month \<le> 12" "1 \<le> day" "day \<le> 31"
  shows "DayFromYear y \<le> MakeDay y (month - 1) day"
    and "MakeDay y (month - 1) day < DayFromYear (y + 1)"
    and "MakeDay y (month - 1) day = DayFromYear y + daysBeforeMonth y (month - 1) + day - 1"
proof -
  have b: "0 \<le> month - 1" "month - 1 \<le> 11" using assms by simp_all
  show e: "MakeDay y (month - 1) day = DayFromYear y + daysBeforeMonth y (month - 1) + day - 1"
    using assms by (simp add: MakeDay_def month_index)
  show "DayFromYear y \<le> MakeDay y (month - 1) day"
    using daysBeforeMonth_bounds(1) [OF b, of y] assms unfolding e by linarith
  show "MakeDay y (month - 1) day < DayFromYear (y + 1)"
    using daysBeforeMonth_bounds(2) [OF b, of y] assms unfolding e DayFromYear_Suc by linarith
qed

lemma YearFromDay_MakeDay:
  assumes "1 \<le> month" "month \<le> 12" "1 \<le> day" "day \<le> 31"
  shows "YearFromDay (MakeDay y (month - 1) day) = y"
  using MakeDay_within_year(1,2) [OF assms] by (rule YearFromDay_unique)

lemma nine_hours: "0 \<le> MakeTime 9 0 0 0" "MakeTime 9 0 0 0 < msPerDay" "MakeTime 9 0 0 0 = 9 * msPerHour"
  by (simp_all add: MakeTime_def msPerDay_def msPerHour_def)

lemma nineOClock_fields:
  assumes "1 \<le> month" "month \<le> 12" "1 \<le> day" "day \<le> 31"
  shows "YearFromTime (nineOClock y month day) = y"
    and "Day (nineOClock y month day) = MakeDay y (month - 1) day"
    and "HourFromTime (nineOClock y month day) = 9"
    and "MinFromTime (nineOClock y month day) = 0"
    and "SecFromTime (nineOClock y month day) = 0"
    and "msFromTime (nineOClock y month day) = 0"
proof -
  show d: "Day (nineOClock y month day) = MakeDay y (month - 1) day"
    unfolding nineOClock_def by (rule Day_MakeDate(1) [OF nine_hours(1,2)])
  show "YearFromTime (nineOClock y month day) = y"
    unfolding YearFromTime_def d by (rule YearFromDay_MakeDay [OF assms])
  define D where "D = MakeDay y (month - 1) day"
  have e: "nineOClock y month day = 3600000 * (24 * D + 9)"
    by (simp add: nineOClock_def MakeDate_def MakeTime_def msPerDay_def msPerHour_def
        msPerMinute_def msPerSecond_def D_def)
  show "HourFromTime (nineOClock y month day) = 9"
    unfolding e HourFromTime_def msPerHour_def by simp
  have "nineOClock y month day = 60000 * (60 * (24 * D + 9))" unfolding e by simp
  then show "MinFromTime (nineOClock y month day) = 0"
    unfolding MinFromTime_def msPerMinute_def by simp
  have "nineOClock y month day = 1000 * (60 * (60 * (24 * D + 9)))" unfolding e by simp
  then show "SecFromTime (nineOClock y month day) = 0"
    unfolding SecFromTime_def msPerSecond_def by simp
  have "nineOClock y month day = 1000 * (3600 * (24 * D + 9))" unfolding e by simp
  then show "msFromTime (nineOClock y month day) = 0"
    unfolding msFromTime_def msPerSecond_def by simp
qed

lemma nineOClock_month_date:
  assumes "1 \<le> month" "month \<le> 12" "1 \<le> day" "day \<le> DaysInMonth y (month - 1)"
  shows "MonthFromTime (nineOClock y month day) = month - 1"
    and "DateFromTime (nineOClock y month day) = day"
proof -
  have d31: "day \<le> 31" using assms(4) by (simp add: DaysInMonth_def split: if_splits)
  have yr: "YearFromTime (nineOClock y month day) = y"
    by (rule nineOClock_fields(1) [OF assms(1-3) d31])
  have dw: "DayWithinYear (nineOClock y month day) = daysBeforeMonth y (month - 1) + day - 1"
    unfolding DayWithinYear_def yr nineOClock_fields(2) [OF assms(1-3) d31]
      MakeDay_within_year(3) [OF assms(1-3) d31] by simp
  have cases: "month = 1 \<or> month = 2 \<or> month = 3 \<or> month = 4 \<or> month = 5 \<or> month = 6
      \<or> month = 7 \<or> month = 8 \<or> month = 9 \<or> month = 10 \<or> month = 11 \<or> month = 12"
    using assms(1,2) by presburger
  show m: "MonthFromTime (nineOClock y month day) = month - 1"
    unfolding MonthFromTime_def dw InLeapYear_def yr Let_def
    using cases assms(3,4)
    by (elim disjE) (simp_all add: daysBeforeMonth_def DaysInMonth_def split: if_splits)
  show "DateFromTime (nineOClock y month day) = day"
    unfolding DateFromTime_def m dw InLeapYear_def yr Let_def
    using cases assms(3,4)
    by (elim disjE) (simp_all add: daysBeforeMonth_def DaysInMonth_def split: if_splits)
qed

lemma nineOClock_feb29:
  assumes "\<not> isLeapYear y"
  shows "MonthFromTime (nineOClock y 2 29) = 2" and "DateFromTime (nineOClock y 2 29) = 1"
    and "nineOClock y 2 29 = nineOClock y 3 1"
proof -
  have yr: "YearFromTime (nineOClock y 2 29) = y"
    by (rule nineOClock_fields(1)) simp_all
  have dw: "DayWithinYear (nineOClock y 2 29) = 59"
    unfolding DayWithinYear_def yr
    using nineOClock_fields(2) [of 2 29 y] MakeDay_within_year(3) [of 2 29 y]
    by (simp add: daysBeforeMonth_def)
  show m: "MonthFromTime (nineOClock y 2 29) = 2"
    unfolding MonthFromTime_def dw InLeapYear_def yr Let_def using assms by simp
  show "DateFromTime (nineOClock y 2 29) = 1"
    unfolding DateFromTime_def m dw InLeapYear_def yr Let_def using assms by simp
  show "nineOClock y 2 29 = nineOClock y 3 1"
    using assms by (simp add: nineOClock_def MakeDay_def daysBeforeMonth_def add.commute)
qed

lemma DayFromYear_100: "DayFromYear 100 = - 683003"
  by (simp add: DayFromYear_def)

lemma DayFromYear_275760: "DayFromYear 275760 = 99999744"
  by (simp add: DayFromYear_def)

lemma newDateFields_ordinary:
  assumes "1 \<le> month" "month \<le> 12" "1 \<le> day" "day \<le> 31"
    and "\<bar>zone (nineOClock y month day) False\<bar> \<le> msPerDay" "100 \<le> y" "y \<le> 275759"
  shows "newDateFields zone y (month - 1) day 9 0 0 = Some (UTC zone (nineOClock y month day))"
proof -
  define D where "D = MakeDay y (month - 1) day"
  define off where "off = zone (nineOClock y month day) False"
  have "DayFromYear 100 \<le> DayFromYear y" "DayFromYear (y + 1) \<le> DayFromYear 275760"
    using assms(6,7) by (simp_all add: DayFromYear_mono)
  then have D: "- 683003 \<le> D" "D < 99999744"
    using MakeDay_within_year(1,2) [OF assms(1-4), of y]
    unfolding DayFromYear_100 DayFromYear_275760 D_def by linarith+
  have fy: "MakeFullYear y = y" using assms(6) by (simp add: MakeFullYear_def)
  have n: "nineOClock y month day = 86400000 * D + 32400000"
    by (simp add: nineOClock_def D_def MakeDate_def MakeTime_def msPerDay_def msPerHour_def)
  have "\<bar>off\<bar> \<le> 86400000" using assms(5) by (simp add: off_def msPerDay_def)
  then have "\<bar>nineOClock y month day - off\<bar> \<le> 8640000000000000"
    unfolding n using D by linarith
  then have "TimeClip (UTC zone (nineOClock y month day)) = Some (UTC zone (nineOClock y month day))"
    by (simp add: UTC_def TimeClip_def off_def)
  then show ?thesis
    by (simp add: newDateFields_def fy nineOClock_def)
qed

lemma leap_next: "isLeapYear y \<Longrightarrow> \<not> isLeapYear (y + 1)"
  unfolding isLeapYear_def by presburger

lemma MakeDay_next_year:
  assumes "1 \<le> month" "month \<le> 12"
  shows "MakeDay (y + 1) (month - 1) day \<le> MakeDay y (month - 1) day + 366"
proof -
  have "daysBeforeMonth (y + 1) (month - 1) + DaysInYear y \<le> daysBeforeMonth y (month - 1) + 366"
    using leap_next [of y] by (auto simp: daysBeforeMonth_def DaysInYear_def)
  then show ?thesis
    using assms by (simp add: MakeDay_def month_index DayFromYear_Suc)
qed

lemma getNextBirthdayDate_ordinary:
  assumes p: "parseMMDD b = Some (month, day)"
    and md: "1 \<le> month" "month \<le> 12" "1 \<le> day" "day \<le> 31"
    and r: "ordinaryReference zone ref"
  shows "getNextBirthdayDate zone b ref =
           Some (if UTC zone (nineOClock (getFullYear zone ref) month day) \<le> ref
                 then UTC zone (nineOClock (getFullYear zone ref + 1) month day)
                 else UTC zone (nineOClock (getFullYear zone ref) month day))"
proof -
  define y where "y = getFullYear zone ref"
  have y: "100 \<le> y" "y \<le> 275759" "100 \<le> y + 1" "y + 1 \<le> 275759"
    using r by (simp_all add: ordinaryReference_def y_def)
  have off: "\<bar>zone t False\<bar> \<le> msPerDay" for t
    using r by (simp add: ordinaryReference_def)
  show ?thesis
    unfolding getNextBirthdayDate_def p y_def [symmetric]
    by (simp add: newDateFields_ordinary [where zone = zone, OF md off y(1,2)]
        newDateFields_ordinary [where zone = zone, OF md off y(3,4)])
qed

text \<open>On the local clock, the reference is more than nine hours before every 09:00 of next year.\<close>

lemma reference_before_next_year:
  assumes md: "1 \<le> month" "month \<le> 12" "1 \<le> day" "day \<le> 31"
  shows "LocalTime zone ref + 9 * msPerHour < nineOClock (getFullYear zone ref + 1) month day"
proof -
  define y where "y = getFullYear zone ref"
  define L where "L = LocalTime zone ref"
  have "Day L < DayFromYear (y + 1)"
    using YearFromDay_bounds [of "Day L"] by (simp add: y_def getFullYear_def YearFromTime_def L_def)
  then have "Day L + 1 \<le> MakeDay (y + 1) (month - 1) day"
    using MakeDay_within_year(1) [OF md, of "y + 1"] by linarith
  then have "(Day L + 1) * msPerDay \<le> MakeDay (y + 1) (month - 1) day * msPerDay"
    using msPerDay_pos by (simp add: mult_right_mono)
  then have "L + MakeTime 9 0 0 0 < nineOClock (y + 1) month day"
    using Day_bounds(2) [of L] by (simp add: nineOClock_def MakeDate_def)
  then show ?thesis using nine_hours(3) by (simp add: L_def y_def)
qed

text \<open>On the local clock, the 09:00 of this year is at most 366 days after the reference.\<close>

lemma this_year_within_366:
  assumes md: "1 \<le> month" "month \<le> 12" "1 \<le> day" "day \<le> 31"
  shows "nineOClock (getFullYear zone ref) month day - LocalTime zone ref \<le> 366 * msPerDay"
proof -
  define y where "y = getFullYear zone ref"
  define L where "L = LocalTime zone ref"
  have "DayFromYear y \<le> Day L"
    using YearFromDay_bounds [of "Day L"] by (simp add: y_def getFullYear_def YearFromTime_def L_def)
  moreover have "MakeDay y (month - 1) day < DayFromYear y + 366"
    using MakeDay_within_year(2) [OF md, of y] DaysInYear_bounds(2) [of y]
    unfolding DayFromYear_Suc by linarith
  ultimately have "MakeDay y (month - 1) day \<le> Day L + 365" by linarith
  then have "MakeDay y (month - 1) day * msPerDay \<le> (Day L + 365) * msPerDay"
    using msPerDay_pos by (simp add: mult_right_mono)
  then have "nineOClock y month day \<le> L + 365 * msPerDay + MakeTime 9 0 0 0"
    using Day_bounds(1) [of L] by (simp add: nineOClock_def MakeDate_def algebra_simps)
  then show ?thesis
    using nine_hours(2) by (simp add: L_def y_def)
qed

lemma next_year_within_366:
  assumes md: "1 \<le> month" "month \<le> 12"
  shows "nineOClock (y + 1) month day \<le> nineOClock y month day + 366 * msPerDay"
proof -
  have "MakeDay (y + 1) (month - 1) day * msPerDay \<le> (MakeDay y (month - 1) day + 366) * msPerDay"
    using msPerDay_pos MakeDay_next_year [OF md] by (simp add: mult_right_mono)
  then show ?thesis
    by (simp add: nineOClock_def MakeDate_def algebra_simps)
qed

text \<open>Zones of fixed offset.\<close>

lemma fixedOffset_simps [simp]:
  "LocalTime (fixedOffset z) t = t + z"
  "UTC (fixedOffset z) t = t - z"
  "keepsLocalTime (fixedOffset z) t"
  "offsetsWithin (fixedOffset z) v \<longleftrightarrow> 0 \<le> v"
  by (simp_all add: LocalTime_def UTC_def fixedOffset_def keepsLocalTime_def offsetsWithin_def)

lemma fixedOffset_apply [simp]: "fixedOffset z t b = z"
  by (simp add: fixedOffset_def)

text \<open>When the clock keeps a local time, the offset in force at its instant is the one it was given.\<close>

lemma keepsLocalTime_offset:
  assumes "keepsLocalTime zone t"
  shows "zone (UTC zone t) True = zone t False"
  using assms by (simp add: keepsLocalTime_def LocalTime_def UTC_def)

lemma getters_nineOClock:
  assumes "1 \<le> month" "month \<le> 12" "1 \<le> dd" "dd \<le> 31"
    and "keepsLocalTime zone (nineOClock y month dd)"
  shows "getFullYear zone (UTC zone (nineOClock y month dd)) = y"
    and "getHours zone (UTC zone (nineOClock y month dd)) = 9"
    and "getMinutes zone (UTC zone (nineOClock y month dd)) = 0"
    and "getSeconds zone (UTC zone (nineOClock y month dd)) = 0"
    and "getMilliseconds zone (UTC zone (nineOClock y month dd)) = 0"
  using nineOClock_fields [OF assms(1-4), of y] assms(5)
  by (simp_all add: getFullYear_def getHours_def getMinutes_def getSeconds_def
      getMilliseconds_def keepsLocalTime_def)

lemma getters_month_date:
  assumes "1 \<le> month" "month \<le> 12" "1 \<le> dd" "dd \<le> DaysInMonth y (month - 1)"
    and "keepsLocalTime zone (nineOClock y month dd)"
  shows "getMonth zone (UTC zone (nineOClock y month dd)) = month - 1"
    and "getDate zone (UTC zone (nineOClock y month dd)) = dd"
  using nineOClock_month_date [OF assms(1-4)] assms(5)
  by (simp_all add: getMonth_def getDate_def keepsLocalTime_def)

lemma ordinaryReference_fixedOffset:
  "ordinaryReference (fixedOffset z) ref \<longleftrightarrow>
     \<bar>z\<bar> \<le> msPerDay \<and> 100 \<le> getFullYear (fixedOffset z) ref
     \<and> getFullYear (fixedOffset z) ref \<le> 275758"
  by (simp add: ordinaryReference_def)

lemma year_2024: "getFullYear (fixedOffset 0) 1710496800000 = 2024"
  by code_simp

lemma ordinary_2024: "ordinaryReference (fixedOffset 0) 1710496800000"
  by (simp add: ordinaryReference_fixedOffset year_2024 msPerDay_def)

text \<open>A day that the month lacks is a day of the following month.\<close>

lemma nineOClock_rollover:
  assumes "1 \<le> month" "month \<le> 12" "DaysInMonth y (month - 1) < day" "day \<le> 31"
  shows "nineOClock y month day = nineOClock y (month + 1) (day - DaysInMonth y (month - 1))"
    and "MonthFromTime (nineOClock y month day) = month"
    and "DateFromTime (nineOClock y month day) = day - DaysInMonth y (month - 1)"
proof -
  have cases: "month = 2 \<or> month = 4 \<or> month = 6 \<or> month = 9 \<or> month = 11"
    using assms by (auto simp: DaysInMonth_def split: if_splits)
  show e: "nineOClock y month day = nineOClock y (month + 1) (day - DaysInMonth y (month - 1))"
    using cases
    by (elim disjE) (simp_all add: nineOClock_def MakeDay_def daysBeforeMonth_def DaysInMonth_def)
  have b: "1 \<le> month + 1" "month + 1 \<le> 12" "1 \<le> day - DaysInMonth y (month - 1)"
    "day - DaysInMonth y (month - 1) \<le> DaysInMonth y (month + 1 - 1)"
    using cases assms(3,4)
    by (auto simp: DaysInMonth_def split: if_splits)
  show "MonthFromTime (nineOClock y month day) = month"
    unfolding e using nineOClock_month_date(1) [OF b] by simp
  show "DateFromTime (nineOClock y month day) = day - DaysInMonth y (month - 1)"
    unfolding e using nineOClock_month_date(2) [OF b] by simp
qed

lemma getters_rollover:
  assumes "1 \<le> month" "month \<le> 12" "DaysInMonth y (month - 1) < dd" "dd \<le> 31"
    and "keepsLocalTime zone (nineOClock y month dd)"
  shows "getMonth zone (UTC zone (nineOClock y month dd)) = month"
    and "getDate zone (UTC zone (nineOClock y month dd)) = dd - DaysInMonth y (month - 1)"
  using nineOClock_rollover(2,3) [OF assms(1-4)] assms(5)
  by (simp_all add: getMonth_def getDate_def keepsLocalTime_def)

lemma offsetsWithin_le:
  assumes "offsetsWithin zone v"
  shows "zone s a \<le> zone t b + v"
  using assms unfolding offsetsWithin_def by (metis diff_le_eq add.commute)

lemma getMessages_tick [simp]: "getMessages (w\<lparr>tick := n\<rparr>) = getMessages w"
  by (simp add: getMessages_def loadData_def)

lemma getContacts_tick [simp]: "getContacts (w\<lparr>tick := n\<rparr>) = getContacts w"
  by (simp add: getContacts_def loadData_def)

lemma getMessages_timers [simp]: "getMessages (w\<lparr>timers := n\<rparr>) = getMessages w"
  by (simp add: getMessages_def loadData_def)

lemma getContacts_timers [simp]: "getContacts (w\<lparr>timers := n\<rparr>) = getContacts w"
  by (simp add: getContacts_def loadData_def)

lemma getMessages_addMessage [simp]: "getMessages (addMessage m w) = getMessages w @ [m]"
  by (simp add: getMessages_def addMessage_def loadData_def saveData_def Let_def)

lemma getContacts_addMessage [simp]: "getContacts (addMessage m w) = getContacts w"
  by (simp add: getContacts_def addMessage_def loadData_def saveData_def Let_def)

lemma getMessages_updateMessage:
  "getMessages (updateMessage i u w) =
     (case findIndex (\<lambda>m. message_id m = i) (getMessages w) of
        None \<Rightarrow> getMessages w
      | Some idx \<Rightarrow> (getMessages w)[idx := applyUpdates (getMessages w ! idx) u])"
  by (simp add: getMessages_def updateMessage_def loadData_def saveData_def Let_def split: option.splits)

lemma getContacts_updateMessage [simp]: "getContacts (updateMessage i u w) = getContacts w"
  by (simp add: getContacts_def updateMessage_def loadData_def saveData_def Let_def split: option.splits)

lemma timers_updateMessage [simp]: "timers (updateMessage i u w) = timers w"
  by (simp add: updateMessage_def loadData_def saveData_def Let_def split: option.splits)

lemma tick_updateMessage [simp]: "tick (updateMessage i u w) = tick w"
  by (simp add: updateMessage_def loadData_def saveData_def Let_def split: option.splits)

lemma activeClients_updateMessage [simp]: "activeClients (updateMessage i u w) = activeClients w"
  by (simp add: updateMessage_def loadData_def saveData_def Let_def split: option.splits)

lemma findIndex_Some:
  "findIndex P xs = Some i \<Longrightarrow> i < length xs \<and> P (xs ! i) \<and> (\<forall>j < i. \<not> P (xs ! j))"
proof (induction xs arbitrary: i)
  case Nil
  then show ?case by simp
next
  case (Cons x xs)
  show ?case
  proof (cases "P x")
    case True
    then show ?thesis using Cons.prems by simp
  next
    case False
    then obtain k where k: "findIndex P xs = Some k" "i = Suc k"
      using Cons.prems by auto
    have "k < length xs \<and> P (xs ! k) \<and> (\<forall>j < k. \<not> P (xs ! j))"
      using Cons.IH [OF k(1)] .
    then show ?thesis using False k(2) by (auto simp: nth_Cons split: nat.splits)
  qed
qed

lemma findIndex_None: "findIndex P xs = None \<longleftrightarrow> (\<forall>x \<in> set xs. \<not> P x)"
  by (induction xs) auto

lemma findIndex_exists: "\<exists>x \<in> set xs. P x \<Longrightarrow> \<exists>i. findIndex P xs = Some i"
  using findIndex_None [of P xs] by (cases "findIndex P xs") auto

lemma getMessages_sendBirthdaySms [simp]:
  "getMessages (snd (sendBirthdaySms env b s c p body w)) = getMessages w"
  by (auto simp: sendBirthdaySms_def ensureNotifyService_def newDate_def rememberServiceSid_def
      setNotifyServiceSid_def getMessages_def loadData_def saveData_def Let_def
      getNotifyServiceSid_def
      split: option.splits prod.splits ServiceResponse.splits NotificationResponse.splits)

lemma getContacts_sendBirthdaySms [simp]:
  "getContacts (snd (sendBirthdaySms env b s c p body w)) = getContacts w"
  by (auto simp: sendBirthdaySms_def ensureNotifyService_def newDate_def rememberServiceSid_def
      setNotifyServiceSid_def getContacts_def loadData_def saveData_def Let_def
      getNotifyServiceSid_def
      split: option.splits prod.splits ServiceResponse.splits NotificationResponse.splits)

lemma timers_sendBirthdaySms [simp]:
  "timers (snd (sendBirthdaySms env b s c p body w)) = timers w"
  by (auto simp: sendBirthdaySms_def ensureNotifyService_def newDate_def rememberServiceSid_def
      setNotifyServiceSid_def  loadData_def saveData_def Let_def
      getNotifyServiceSid_def
      split: option.splits prod.splits ServiceResponse.splits NotificationResponse.splits)

lemma scheduledKeys_append [simp]:
  "scheduledKeys (xs @ ys) = scheduledKeys xs @ scheduledKeys ys"
  by (simp add: scheduledKeys_def)

lemma scheduledKeys_single:
  "scheduledKeys [m] = (if status m = Scheduled then [(contactId m, year m)] else [])"
  by (simp add: scheduledKeys_def)

lemma applyUpdates_fields [simp]:
  "message_id (applyUpdates m u) = message_id m"
  "contactId (applyUpdates m u) = contactId m"
  "year (applyUpdates m u) = year m"
  "scheduledFor (applyUpdates m u) = scheduledFor m"
  "status (applyUpdates m u) = (case upd_status u of None \<Rightarrow> status m | Some v \<Rightarrow> v)"
  by (simp_all add: applyUpdates_def)

lemma scheduledKeys_Cons:
  "scheduledKeys (m # ms) =
     (if status m = Scheduled then [(contactId m, year m)] else []) @ scheduledKeys ms"
  by (simp add: scheduledKeys_def)

lemma atMostOneScheduled_update:
  assumes "atMostOneScheduled msgs" and "upd_status u \<noteq> Some Scheduled"
  shows "atMostOneScheduled (msgs[idx := applyUpdates (msgs ! idx) u])"
proof (cases "idx < length msgs")
  case False
  then show ?thesis using assms(1) by (simp add: list_update_beyond)
next
  case True
  define m where "m = msgs ! idx"
  have "msgs = take idx msgs @ m # drop (Suc idx) msgs"
    using True unfolding m_def by (rule id_take_nth_drop)
  then have "distinct (scheduledKeys (take idx msgs @ m # drop (Suc idx) msgs))"
    using assms(1) unfolding atMostOneScheduled_def by simp
  then have "distinct (scheduledKeys (take idx msgs @ applyUpdates m u # drop (Suc idx) msgs))"
    using assms(2) by (cases "upd_status u") (auto simp: scheduledKeys_Cons)
  then show ?thesis
    unfolding atMostOneScheduled_def m_def [symmetric]
    using True by (simp add: upd_conv_take_nth_drop)
qed

lemma atMostOneScheduled_updateMessage:
  assumes "atMostOneScheduled (getMessages w)" and "upd_status u \<noteq> Some Scheduled"
  shows "atMostOneScheduled (getMessages (updateMessage i u w))"
  using atMostOneScheduled_update [OF assms]
  by (simp add: getMessages_updateMessage assms(1) split: option.splits)

lemma noUpdates_status [simp]:
  "upd_status (noUpdates\<lparr>upd_status := v\<rparr>) = v"
  by simp

lemma scheduledKeys_mem:
  "k \<in> set (scheduledKeys msgs) \<longleftrightarrow>
     (\<exists>m \<in> set msgs. status m = Scheduled \<and> contactId m = fst k \<and> year m = snd k)"
  by (cases k) (force simp: scheduledKeys_def)

lemma atMostOneScheduled_scheduleMessagesForContact:
  assumes "atMostOneScheduled (getMessages w)"
  shows "atMostOneScheduled (getMessages (snd (scheduleMessagesForContact env c w)))"
proof (cases "find (\<lambda>x. contact_id x = c) (getContacts w)")
  case None
  then show ?thesis using assms by (simp add: scheduleMessagesForContact_def)
next
  case (Some contact)
  then have cid: "contact_id contact = c" by (auto simp: find_Some_iff)
  show ?thesis
  proof (cases "getNextBirthdayDate (localTZA env) (birthday contact) (clock env (tick w))")
    case None
    then show ?thesis
      using assms Some
      by (simp add: scheduleMessagesForContact_def newDate_def uuidv4_def
          generateBirthdayMessage_def randomBelow_def Let_def split: option.splits)
  next
    case nb: (Some nb)
    show ?thesis
    proof (cases "find (\<lambda>m. contactId m = c \<and> year m = getFullYear (localTZA env) nb
                           \<and> status m = Scheduled) (getMessages w)")
      case (Some existing)
      then show ?thesis
        using assms \<open>find (\<lambda>x. contact_id x = c) (getContacts w) = Some contact\<close> nb
        by (simp add: scheduleMessagesForContact_def newDate_def Let_def)
    next
      case None
      then have "(c, getFullYear (localTZA env) nb) \<notin> set (scheduledKeys (getMessages w))"
        by (auto simp: find_None_iff scheduledKeys_mem)
      then show ?thesis
        using assms None \<open>find (\<lambda>x. contact_id x = c) (getContacts w) = Some contact\<close> nb cid
        by (simp add: scheduleMessagesForContact_def newDate_def uuidv4_def
            generateBirthdayMessage_def randomBelow_def Let_def atMostOneScheduled_def
            scheduledKeys_single)
    qed
  qed
qed

lemma atMostOneScheduled_scheduleAllLoop:
  assumes "atMostOneScheduled (getMessages w)"
  shows "atMostOneScheduled (getMessages (snd (scheduleAllLoop env cs acc w)))"
  using assms
proof (induction cs arbitrary: acc w)
  case Nil
  then show ?case by simp
next
  case (Cons contact rest)
  obtain r w1 where r: "scheduleMessagesForContact env (contact_id contact) w = (r, w1)"
    by (cases "scheduleMessagesForContact env (contact_id contact) w")
  have w1: "atMostOneScheduled (getMessages w1)"
    using atMostOneScheduled_scheduleMessagesForContact [OF Cons.prems, of env "contact_id contact"] r
    by simp
  show ?case
    using Cons.IH [OF w1] w1 r
    by (simp split: completion.splits option.splits)
qed

lemma atMostOneScheduled_processDueLoop:
  assumes "atMostOneScheduled (getMessages w)"
  shows "atMostOneScheduled (getMessages (snd (processDueLoop env b now msgs w)))"
  using assms
proof (induction msgs arbitrary: w)
  case Nil
  then show ?case by simp
next
  case (Cons msg rest)
  define w1 where "w1 = updateMessage (message_id msg) (noUpdates\<lparr>upd_status := Some Sending\<rparr>) w"
  obtain result w2 where s: "sendBirthdaySms env b ''scheduler'' (contactId msg) (phone msg)
      (messageBody msg) w1 = (result, w2)"
    by (cases "sendBirthdaySms env b ''scheduler'' (contactId msg) (phone msg) (messageBody msg) w1")
  have i1: "atMostOneScheduled (getMessages w1)"
    unfolding w1_def by (rule atMostOneScheduled_updateMessage [OF Cons.prems]) simp
  have "getMessages w2 = getMessages w1"
    using getMessages_sendBirthdaySms [of env b "''scheduler''" "contactId msg" "phone msg"
        "messageBody msg" w1] s by simp
  then have i2: "atMostOneScheduled (getMessages w2)" using i1 by simp
  define wf where "wf = updateMessage (message_id msg)
      (noUpdates\<lparr>upd_status := Some Failed, upd_errorMessage := Some (error result)\<rparr>) w2"
  have i_f: "atMostOneScheduled (getMessages wf)"
    unfolding wf_def by (rule atMostOneScheduled_updateMessage [OF i2]) simp
  define w5 where "w5 = setTimeoutDelivered (message_id msg)
      (updateMessage (message_id msg)
         (noUpdates\<lparr>upd_status := Some Sent, upd_notificationSid := Some (resultSid result),
            upd_sentAt := Some (Some (toISOString (clock env (tick w2))))\<rparr>)
         (w2\<lparr>tick := Suc (tick w2)\<rparr>))"
  have i5: "atMostOneScheduled (getMessages w5)"
    unfolding w5_def setTimeoutDelivered_def
    using atMostOneScheduled_updateMessage [of "w2\<lparr>tick := Suc (tick w2)\<rparr>"] i2
    by simp
  have i6: "atMostOneScheduled (getMessages w6)"
    if "scheduleMessagesForContact env c w5 = (r, w6)" for c r w6
    using atMostOneScheduled_scheduleMessagesForContact [OF i5, of env c] that by simp
  have ih6: "atMostOneScheduled (getMessages (snd (processDueLoop env b now rest w6)))"
    if "scheduleMessagesForContact env c w5 = (r, w6)" for c r w6
    by (rule Cons.IH [OF i6 [OF that]])
  show ?case
    using Cons.prems Cons.IH [OF Cons.prems] Cons.IH [OF i_f] Cons.IH [OF i5] i6 ih6 s
    by (auto simp: w1_def [symmetric] wf_def [symmetric] w5_def [symmetric] newDate_def Let_def
        split: option.splits prod.splits completion.splits)
qed

lemma atMostOneScheduled_processDueMessages:
  assumes "atMostOneScheduled (getMessages w)"
  shows "atMostOneScheduled (getMessages (snd (processDueMessages env w)))"
  using atMostOneScheduled_processDueLoop [of "w\<lparr>tick := Suc (tick w)\<rparr>"] assms
  by (simp add: processDueMessages_def newDate_def Let_def)

lemma atMostOneScheduled_cancelMessage:
  assumes "atMostOneScheduled (getMessages w)"
  shows "atMostOneScheduled (getMessages (snd (cancelMessage i w)))"
  using atMostOneScheduled_updateMessage [OF assms] assms
  by (simp add: cancelMessage_def split: option.splits)

lemma scheduledKeys_cancel_contact:
  "scheduledKeys (map (\<lambda>m. if contactId m = i \<and> status m = Scheduled
                            then m\<lparr>status := Cancelled\<rparr> else m) msgs)
     = filter (\<lambda>k. fst k \<noteq> i) (scheduledKeys msgs)"
  by (induction msgs) (auto simp: scheduledKeys_Cons scheduledKeys_def)

lemma getMessages_removeContact:
  "getMessages (snd (removeContact i w)) =
     (if \<exists>c \<in> set (getContacts w). contact_id c = i
      then map (\<lambda>m. if contactId m = i \<and> status m = Scheduled
                     then m\<lparr>status := Cancelled\<rparr> else m) (getMessages w)
      else getMessages w)"
proof (cases "findIndex (\<lambda>c. contact_id c = i) (contacts (dataFile w))")
  case None
  then have "\<not> (\<exists>c \<in> set (contacts (dataFile w)). contact_id c = i)"
    by (simp add: findIndex_None)
  then show ?thesis
    using None
    by (simp add: removeContact_def getMessages_def getContacts_def loadData_def Let_def)
next
  case (Some idx)
  have "idx < length (contacts (dataFile w))" "contact_id (contacts (dataFile w) ! idx) = i"
    using findIndex_Some [OF Some] by simp_all
  then have "\<exists>c \<in> set (contacts (dataFile w)). contact_id c = i"
    using nth_mem by blast
  then show ?thesis
    using Some
    by (simp add: removeContact_def getMessages_def getContacts_def loadData_def saveData_def
        Let_def)
qed

lemma atMostOneScheduled_deleteContact:
  assumes "atMostOneScheduled (getMessages w)"
  shows "atMostOneScheduled (getMessages (snd (deleteContact i w)))"
proof -
  have "snd (deleteContact i w) = snd (removeContact i w)"
    by (simp add: deleteContact_def split: prod.splits bool.splits)
  then show ?thesis
    using assms
    by (simp add: getMessages_removeContact atMostOneScheduled_def scheduledKeys_cancel_contact)
qed

lemma atMostOneScheduled_deliveredUpdate:
  assumes "atMostOneScheduled (getMessages w)"
  shows "atMostOneScheduled (getMessages (deliveredUpdate env i w))"
  using atMostOneScheduled_updateMessage [of "w\<lparr>tick := Suc (tick w)\<rparr>"] assms
  by (simp add: deliveredUpdate_def newDate_def)

lemma atMostOneScheduled_sendNow:
  assumes "atMostOneScheduled (getMessages w)"
  shows "atMostOneScheduled (getMessages (snd (sendNow env s c bp w)))"
proof (cases "c \<noteq> [] \<and> find (\<lambda>x. contact_id x = c) (getContacts w) \<noteq> None")
  case False
  then show ?thesis using assms by (auto simp: sendNow_def)
next
  case True
  then obtain contact where contact: "find (\<lambda>x. contact_id x = c) (getContacts w) = Some contact"
    by auto
  obtain body w1 where b: "(case whenTruthy bp of Some given \<Rightarrow> (given, w)
      | None \<Rightarrow> generateBirthdayMessage env (contact_name contact) w) = (body, w1)"
    by (cases "(case whenTruthy bp of Some given \<Rightarrow> (given, w)
      | None \<Rightarrow> generateBirthdayMessage env (contact_name contact) w)")
  have m1: "getMessages w1 = getMessages w"
    using b by (auto simp: generateBirthdayMessage_def randomBelow_def Let_def split: option.splits)
  define rec where "rec = \<lparr>message_id = uuid env (tick w1),
                       contactId = contact_id contact,
                       contactName = contact_name contact,
                       phone = contact_phone contact,
                       messageBody = body,
                       scheduledFor = toISOString (clock env (Suc (tick w1))),
                       status = Sending,
                       notificationSid = None,
                       errorMessage = None,
                       sentAt = None,
                       deliveredAt = None,
                       createdAt = toISOString (clock env (Suc (Suc (tick w1)))),
                       year = getFullYear (localTZA env) (clock env (Suc (Suc (Suc (tick w1)))))\<rparr>"
  define w6 where "w6 = addMessage rec (w1\<lparr>tick := Suc (Suc (Suc (Suc (tick w1))))\<rparr>)"
  have i6: "atMostOneScheduled (getMessages w6)"
    using assms by (simp add: w6_def m1 atMostOneScheduled_def rec_def scheduledKeys_single)
  obtain result w7 where s: "sendBirthdaySms env (getSessionClient s w6) s (contact_id contact)
      (contact_phone contact) body w6 = (result, w7)"
    by (cases "sendBirthdaySms env (getSessionClient s w6) s (contact_id contact)
      (contact_phone contact) body w6")
  have "getMessages w7 = getMessages w6"
    using getMessages_sendBirthdaySms [of env "getSessionClient s w6" s "contact_id contact"
        "contact_phone contact" body w6] s by simp
  then have i7: "atMostOneScheduled (getMessages w7)" using i6 by simp
  have i7': "atMostOneScheduled (getMessages (w7\<lparr>tick := Suc (tick w7)\<rparr>))" using i7 by simp
  show ?thesis
    using True contact b s atMostOneScheduled_updateMessage [OF i7]
      atMostOneScheduled_updateMessage [OF i7']
    by (simp add: sendNow_def Let_def uuidv4_def newDate_def rec_def [symmetric]
        w6_def [symmetric] setTimeoutDelivered_def)
qed

lemma atMostOneScheduled_exec:
  assumes "atMostOneScheduled (getMessages w)"
  shows "atMostOneScheduled (getMessages (exec env op w))"
proof (cases op)
  case (EnsureScheduled c)
  then show ?thesis using atMostOneScheduled_scheduleMessagesForContact [OF assms] by simp
next
  case ScheduleAll
  then show ?thesis
    using atMostOneScheduled_scheduleAllLoop [OF assms] by (simp add: scheduleAllContacts_def)
next
  case DispatchCycle
  then show ?thesis using atMostOneScheduled_processDueMessages [OF assms] by simp
next
  case (CancelMessage i)
  then show ?thesis using atMostOneScheduled_cancelMessage [OF assms] by simp
next
  case (DeleteContact i)
  then show ?thesis using atMostOneScheduled_deleteContact [OF assms] by simp
next
  case (SendNow s c bp)
  then show ?thesis using atMostOneScheduled_sendNow [OF assms] by simp
next
  case (DeliveredUpdate k)
  then show ?thesis
    using assms
      atMostOneScheduled_deliveredUpdate [of "w\<lparr>timers := take k (timers w) @ drop (Suc k) (timers w)\<rparr>"]
    by simp
qed

lemma run_append: "run env (xs @ ys) w = run env ys (run env xs w)"
  by (induction xs arbitrary: w) simp_all

lemma atMostOneScheduled_run:
  assumes "atMostOneScheduled (getMessages w)"
  shows "atMostOneScheduled (getMessages (run env ops w))"
  using assms by (induction ops arbitrary: w) (simp_all add: atMostOneScheduled_exec)

lemma Day_mono: "s \<le> t \<Longrightarrow> Day s \<le> Day t"
  unfolding Day_def using msPerDay_pos by (simp add: zdiv_mono1)

lemma YearFromDay_mono:
  assumes "d \<le> e"
  shows "YearFromDay d \<le> YearFromDay e"
proof (rule ccontr)
  assume "\<not> YearFromDay d \<le> YearFromDay e"
  then have "YearFromDay e + 1 \<le> YearFromDay d" by simp
  then have "DayFromYear (YearFromDay e + 1) \<le> DayFromYear (YearFromDay d)"
    by (rule DayFromYear_mono)
  then show False
    using YearFromDay_bounds [of d] YearFromDay_bounds [of e] assms by linarith
qed

lemma yearNeverGoesBack_fixedOffset [simp]: "yearNeverGoesBack (fixedOffset z)"
  unfolding yearNeverGoesBack_def getFullYear_def YearFromTime_def
  by (auto intro!: YearFromDay_mono Day_mono)

lemma getFullYear_before_nineOClock:
  assumes "1 \<le> month" "month \<le> 12" "1 \<le> dd" "dd \<le> 31"
    and "yearNeverGoesBack zone" "keepsLocalTime zone (nineOClock y month dd)"
    and "t < UTC zone (nineOClock y month dd)"
  shows "getFullYear zone t \<le> y"
  using assms(5,7) getters_nineOClock(1) [OF assms(1-4,6)]
  unfolding yearNeverGoesBack_def by (metis less_imp_le)

lemma getNextBirthdayDate_stable:
  assumes p: "parseMMDD b = Some (month, dd)"
    and md: "1 \<le> month" "month \<le> 12" "1 \<le> dd" "dd \<le> 31"
    and r: "ordinaryReference zone now1"
    and z: "yearNeverGoesBack zone"
      "keepsLocalTime zone (nineOClock (getFullYear zone now1) month dd)"
      "keepsLocalTime zone (nineOClock (getFullYear zone now1 + 1) month dd)"
    and f: "getNextBirthdayDate zone b now1 = Some fire"
    and t: "now1 \<le> now2" "now2 < fire"
  shows "getNextBirthdayDate zone b now2 = Some fire"
proof -
  define y1 where "y1 = getFullYear zone now1"
  define y2 where "y2 = getFullYear zone now2"
  define c where "c = (\<lambda>y. UTC zone (nineOClock y month dd))"
  have y1: "100 \<le> y1" "y1 \<le> 275758"
    using r by (simp_all add: ordinaryReference_def y1_def)
  have off: "\<bar>zone s False\<bar> \<le> msPerDay" for s
    using r by (simp add: ordinaryReference_def)
  have fire: "fire = (if c y1 \<le> now1 then c (y1 + 1) else c y1)"
    using f getNextBirthdayDate_ordinary [OF p md r] by (auto simp: y1_def c_def)
  have lo: "y1 \<le> y2"
    unfolding y1_def y2_def using z(1) t(1) by (simp add: yearNeverGoesBack_def)
  have nd: "newDateFields zone y (month - 1) dd 9 0 0 = Some (c y)"
    if "100 \<le> y" "y \<le> 275759" for y
    unfolding c_def by (rule newDateFields_ordinary [where zone = zone, OF md off that])
  show ?thesis
  proof (cases "c y1 \<le> now1")
    case False
    then have fy: "fire = c y1" using fire by simp
    have "y2 \<le> y1"
      unfolding y2_def using t(2) unfolding fy c_def
      by (rule getFullYear_before_nineOClock [OF md z(1) z(2) [folded y1_def]])
    then have eq: "y2 = y1" using lo by simp
    show ?thesis
      unfolding getNextBirthdayDate_def p
      using nd [of y1] y1 t(2) fy
      by (simp add: Let_def y2_def [symmetric] eq)
  next
    case True
    then have fy: "fire = c (y1 + 1)" using fire by simp
    have "y2 \<le> y1 + 1"
      unfolding y2_def using t(2) unfolding fy c_def
      by (rule getFullYear_before_nineOClock [OF md z(1) z(3) [folded y1_def]])
    then consider "y2 = y1" | "y2 = y1 + 1" using lo by linarith
    then show ?thesis
    proof cases
      case 1
      show ?thesis
        unfolding getNextBirthdayDate_def p
        using nd [of y1] nd [of "y1 + 1"] y1 True t(1) fy
        by (simp add: Let_def y2_def [symmetric] 1)
    next
      case 2
      show ?thesis
        unfolding getNextBirthdayDate_def p
        using nd [of "y1 + 1"] y1 t(2) fy
        by (simp add: Let_def y2_def [symmetric] 2)
    qed
  qed
qed

lemma getContacts_scheduleMessagesForContact [simp]:
  "getContacts (snd (scheduleMessagesForContact env c w)) = getContacts w"
  by (simp add: scheduleMessagesForContact_def newDate_def uuidv4_def generateBirthdayMessage_def
      randomBelow_def Let_def split: option.splits)

text \<open>What a call of scheduleMessagesForContact does, by the cases of its two searches.\<close>

lemma scheduleMessagesForContact_existing:
  assumes "find (\<lambda>c. contact_id c = cId) (getContacts w) = Some contact"
    and "getNextBirthdayDate (localTZA env) (birthday contact) (clock env (tick w)) = Some nb"
    and "find (\<lambda>m. contactId m = cId \<and> year m = getFullYear (localTZA env) nb
                    \<and> status m = Scheduled) (getMessages w) = Some existing"
  shows "scheduleMessagesForContact env cId w = (Returned (Some existing), w\<lparr>tick := Suc (tick w)\<rparr>)"
  using assms by (simp add: scheduleMessagesForContact_def newDate_def Let_def)

lemma scheduleMessagesForContact_created:
  assumes "find (\<lambda>c. contact_id c = cId) (getContacts w) = Some contact"
    and "getNextBirthdayDate (localTZA env) (birthday contact) (clock env (tick w)) = Some nb"
    and "find (\<lambda>m. contactId m = cId \<and> year m = getFullYear (localTZA env) nb
                    \<and> status m = Scheduled) (getMessages w) = None"
  shows "scheduleMessagesForContact env cId w =
           (Returned (Some (newMessage env contact nb (tick w))),
            addMessage (newMessage env contact nb (tick w))
              (w\<lparr>tick := Suc (Suc (Suc (Suc (tick w))))\<rparr>))"
  using assms
  by (simp add: scheduleMessagesForContact_def newDate_def uuidv4_def generateBirthdayMessage_def
      randomBelow_def Let_def newMessage_def)

lemma find_snoc:
  "find P (xs @ [x]) = (case find P xs of Some y \<Rightarrow> Some y | None \<Rightarrow> if P x then Some x else None)"
  by (induction xs) simp_all

lemma addMessage_frame [simp]:
  "tick (addMessage m w) = tick w"
  "timers (addMessage m w) = timers w"
  "activeClients (addMessage m w) = activeClients w"
  by (simp_all add: addMessage_def saveData_def loadData_def Let_def)

lemma exampleEnv_simps [simp]:
  "localTZA (exampleEnv zone start answer) = fixedOffset zone"
  "clock (exampleEnv zone start answer) k = start + 1000 * int k"
  "uuid (exampleEnv zone start answer) k = replicate (Suc k) CHR ''u''"
  "randomIndex (exampleEnv zone start answer) k = k"
  "createService (exampleEnv zone start answer) k = ServiceThrew"
  "createNotification (exampleEnv zone start answer) k = answer"
  by (simp_all add: exampleEnv_def)

lemma exampleWorld_simps [simp]:
  "getContacts (exampleWorld born msgs clients) = [exampleContact born]"
  "getMessages (exampleWorld born msgs clients) = msgs"
  "activeClients (exampleWorld born msgs clients) = clients"
  "timers (exampleWorld born msgs clients) = []"
  "tick (exampleWorld born msgs clients) = 0"
  by (simp_all add: exampleWorld_def getContacts_def getMessages_def loadData_def)

lemma exampleContact_simps [simp]:
  "contact_id (exampleContact born) = ''c1''"
  "birthday (exampleContact born) = born"
  by (simp_all add: exampleContact_def)

lemma parse_0315: "parseMMDD ''03-15'' = Some (3, 15)"
  by code_simp

lemma next_after_cutoff: "getNextBirthdayDate (fixedOffset 0) ''03-15'' 1710496800000 = Some 1742029200000"
  by code_simp

lemma year_2025: "getFullYear (fixedOffset 0) 1742029200000 = 2025"
  by code_simp

lemma easternTime_offsets:
  "\<bar>easternTime t b\<bar> \<le> msPerDay"
  "offsetsWithin easternTime msPerHour"
  by (simp_all add: easternTime_def offsetsWithin_def Let_def msPerDay_def msPerHour_def)

lemma easternTime_2023:
  "getFullYear easternTime 1699102800000 = 2023"
  "keepsLocalTime easternTime (nineOClock 2023 11 4)"
  "keepsLocalTime easternTime (nineOClock 2024 11 4)"
  "parseMMDD ''11-04'' = Some (11, 4)"
  "getNextBirthdayDate easternTime ''11-04'' 1699102800000 = Some 1730728800000"
  by code_simp+

lemma YearFromTime_mono: "s \<le> t \<Longrightarrow> YearFromTime s \<le> YearFromTime t"
  unfolding YearFromTime_def by (intro YearFromDay_mono Day_mono)

lemma YearFromTime_between:
  assumes "YearFromTime a = y" "YearFromTime b = y" "a \<le> t" "t \<le> b"
  shows "YearFromTime t = y"
  using YearFromTime_mono [OF assms(3)] YearFromTime_mono [OF assms(4)] assms(1,2) by simp

lemma fall_back_years:
  "YearFromTime (1699164000000 - 18000000) = 2023" "YearFromTime (1699164000000 - 14400000) = 2023"
  "YearFromTime (1730613600000 - 18000000) = 2024" "YearFromTime (1730613600000 - 14400000) = 2024"
  by code_simp+

text \<open>The zone of the example has daylight saving, and its local year never goes back.\<close>

lemma yearNeverGoesBack_easternTime: "yearNeverGoesBack easternTime"
  unfolding yearNeverGoesBack_def getFullYear_def
proof (intro allI impI)
  fix s t :: int
  assume st: "s \<le> t"
  show "YearFromTime (LocalTime easternTime s) \<le> YearFromTime (LocalTime easternTime t)"
  proof (cases "LocalTime easternTime s \<le> LocalTime easternTime t")
    case True
    then show ?thesis by (rule YearFromTime_mono)
  next
    case False
    then consider
        "1699164000000 - 18000000 \<le> LocalTime easternTime s"
        "LocalTime easternTime s \<le> 1699164000000 - 14400000"
        "1699164000000 - 18000000 \<le> LocalTime easternTime t"
        "LocalTime easternTime t \<le> 1699164000000 - 14400000"
      | "1730613600000 - 18000000 \<le> LocalTime easternTime s"
        "LocalTime easternTime s \<le> 1730613600000 - 14400000"
        "1730613600000 - 18000000 \<le> LocalTime easternTime t"
        "LocalTime easternTime t \<le> 1730613600000 - 14400000"
      using st by (auto simp: LocalTime_def easternTime_def Let_def split: if_splits)
    then show ?thesis
    proof cases
      case 1
      then show ?thesis
        using YearFromTime_between [OF fall_back_years(1,2)] by simp
    next
      case 2
      then show ?thesis
        using YearFromTime_between [OF fall_back_years(3,4)] by simp
    qed
  qed
qed

lemma easternEnv_simps [simp]:
  "localTZA (easternEnv start answer) = easternTime"
  "clock (easternEnv start answer) k = start + 1000 * int k"
  "uuid (easternEnv start answer) k = replicate (Suc k) CHR ''u''"
  "randomIndex (easternEnv start answer) k = k"
  "createService (easternEnv start answer) k = ServiceThrew"
  "createNotification (easternEnv start answer) k = answer"
  by (simp_all add: easternEnv_def)

lemma ordinary_eastern: "ordinaryReference easternTime 1699102800000"
  by (simp add: ordinaryReference_def easternTime_offsets(1) easternTime_2023(1))

lemma digit_cases:
  assumes "0 \<le> d" "d < (10::int)"
  shows "d = 0 \<or> d = 1 \<or> d = 2 \<or> d = 3 \<or> d = 4 \<or> d = 5 \<or> d = 6 \<or> d = 7 \<or> d = 8 \<or> d = 9"
  using assms by presburger

lemma digitValue_digitChar:
  assumes "0 \<le> d" "d < 10"
  shows "digitValue (digitChar d) = Some d"
  using digit_cases [OF assms]
  by (elim disjE) (simp_all add: digitValue_def digitChar_def decimalDigits_def)

lemma digitChar_not_sign:
  assumes "0 \<le> d" "d < 10"
  shows "digitChar d \<noteq> CHR ''-''" and "digitChar d \<noteq> CHR ''+''"
  using digit_cases [OF assms]
  by (elim disjE; simp add: digitChar_def decimalDigits_def)+

lemma decimalValue_append:
  "decimalValue acc (xs @ ys) =
     (case decimalValue acc xs of None \<Rightarrow> None | Some v \<Rightarrow> decimalValue v ys)"
  by (induction xs arbitrary: acc) (simp_all split: option.splits)

lemma decimalValue_padDigits:
  "decimalValue acc (padDigits n k) = Some (acc * 10 ^ n + k mod 10 ^ n)"
proof (induction n arbitrary: k acc)
  case 0
  then show ?case by simp
next
  case (Suc n)
  have d: "digitValue (digitChar (k mod 10)) = Some (k mod 10)"
    by (rule digitValue_digitChar) simp_all
  have "k mod (10 * 10 ^ n) = 10 * (k div 10 mod 10 ^ n) + k mod 10"
    by (rule zmod_zmult2_eq) simp
  then show ?case
    by (simp add: decimalValue_append Suc d algebra_simps)
qed

lemma padDigits_digits:
  "c \<in> set (padDigits n k) \<Longrightarrow> c \<noteq> CHR ''-'' \<and> c \<noteq> CHR ''+''"
proof (induction n arbitrary: k)
  case 0
  then show ?case by simp
next
  case (Suc n)
  have "digitChar (k mod 10) \<noteq> CHR ''-''" "digitChar (k mod 10) \<noteq> CHR ''+''"
    by (rule digitChar_not_sign; simp)+
  then show ?case using Suc by auto
qed

lemma takeWhile_padDigits:
  "takeWhile (\<lambda>x. x \<noteq> CHR ''-'') (padDigits n k @ CHR ''-'' # rest) = padDigits n k"
  using padDigits_digits [of _ n k] by (simp add: takeWhile_append2)

lemma padDigits_Suc_hd:
  "\<exists>c cs. padDigits (Suc n) k = c # cs \<and> c \<noteq> CHR ''-'' \<and> c \<noteq> CHR ''+''"
proof -
  have "padDigits (Suc n) k \<noteq> []" by simp
  then obtain c cs where e: "padDigits (Suc n) k = c # cs" by (cases "padDigits (Suc n) k") auto
  then have "c \<in> set (padDigits (Suc n) k)" by simp
  then show ?thesis using padDigits_digits e by blast
qed

lemma isoYearComponent_isoYear:
  assumes "- 999999 \<le> y" "y \<le> 999999"
  shows "isoYearComponent (isoYear y @ CHR ''-'' # rest) = Some y"
proof (cases "0 \<le> y \<and> y \<le> 9999")
  case True
  obtain c cs where e: "padDigits 4 y = c # cs" "c \<noteq> CHR ''-''" "c \<noteq> CHR ''+''"
    using padDigits_Suc_hd [of 3 y] by (auto simp: numeral_eq_Suc)
  have t: "isoYearText (padDigits 4 y @ CHR ''-'' # rest) = padDigits 4 y"
    using takeWhile_padDigits [of 4 y rest] e by (simp add: isoYearText_def)
  have "decimalValue 0 (padDigits 4 y) = Some y"
    using True by (simp add: decimalValue_padDigits)
  then show ?thesis
    using True e t by (simp add: isoYearComponent_def isoYear_def)
next
  case False
  show ?thesis
  proof (cases "y < 0")
    case True
    have "decimalValue 0 (padDigits 6 (- y)) = Some (- y)"
      using True assms by (simp add: decimalValue_padDigits)
    then show ?thesis
      using True takeWhile_padDigits [of 6 "- y" rest]
      by (simp add: isoYearComponent_def isoYear_def isoYearText_def)
  next
    case nonneg: False
    have "decimalValue 0 (padDigits 6 y) = Some y"
      using nonneg assms by (simp add: decimalValue_padDigits)
    then show ?thesis
      using nonneg False takeWhile_padDigits [of 6 y rest]
      by (simp add: isoYearComponent_def isoYear_def isoYearText_def)
  qed
qed

lemma isoYearComponent_toISOString:
  assumes "- 999999 \<le> YearFromTime t" "YearFromTime t \<le> 999999"
  shows "isoYearComponent (toISOString t) = Some (YearFromTime t)"
  unfolding toISOString_def using isoYearComponent_isoYear [OF assms] by simp

text \<open>The UTC year of 09:00 local time, for zone offsets from -15 h to +9 h.\<close>

lemma YearFromTime_nineOClock_utc:
  assumes md: "1 \<le> month" "month \<le> 12" "1 \<le> dd" "dd \<le> 31"
    and z: "- 15 * msPerHour < z" "z \<le> 9 * msPerHour"
  shows "YearFromTime (nineOClock y month dd - z) = y"
proof -
  have e: "nineOClock y month dd - z = MakeDate (MakeDay y (month - 1) dd) (9 * msPerHour - z)"
    by (simp add: nineOClock_def MakeDate_def nine_hours(3))
  have "0 \<le> 9 * msPerHour - z" "9 * msPerHour - z < msPerDay"
    using z by (simp_all add: msPerHour_def msPerDay_def)
  then have "Day (nineOClock y month dd - z) = MakeDay y (month - 1) dd"
    unfolding e by (rule Day_MakeDate(1))
  then show ?thesis
    unfolding YearFromTime_def by (simp add: YearFromDay_MakeDay [OF md])
qed

lemma getNextBirthdayDate_shape:
  assumes "parseMMDD b = Some (month, dd)" and "getNextBirthdayDate zone b ref = Some t"
  shows "\<exists>yr. t = UTC zone (nineOClock yr month dd)"
  using assms(2) unfolding getNextBirthdayDate_def assms(1)
  by (auto simp: Let_def newDateFields_def TimeClip_def nineOClock_def
      split: option.splits if_splits)

lemma scheduleMessagesForContact_appended:
  assumes "scheduleMessagesForContact env cId w = (Returned (Some m), w')"
    and "getMessages w' = getMessages w @ [m]"
  shows "\<exists>contact nb. find (\<lambda>c. contact_id c = cId) (getContacts w) = Some contact
           \<and> getNextBirthdayDate (localTZA env) (birthday contact) (clock env (tick w)) = Some nb
           \<and> m = newMessage env contact nb (tick w)"
proof (cases "find (\<lambda>c. contact_id c = cId) (getContacts w)")
  case None
  then show ?thesis using assms by (simp add: scheduleMessagesForContact_def)
next
  case (Some contact)
  show ?thesis
  proof (cases "getNextBirthdayDate (localTZA env) (birthday contact) (clock env (tick w))")
    case None
    then show ?thesis
      using assms Some
      by (simp add: scheduleMessagesForContact_def newDate_def uuidv4_def
          generateBirthdayMessage_def randomBelow_def Let_def find_Some_iff split: option.splits)
  next
    case nb: (Some nb)
    show ?thesis
    proof (cases "find (\<lambda>m. contactId m = cId \<and> year m = getFullYear (localTZA env) nb
                           \<and> status m = Scheduled) (getMessages w)")
      case (Some existing)
      then show ?thesis
        using assms scheduleMessagesForContact_existing [OF \<open>find (\<lambda>c. contact_id c = cId) (getContacts w) = Some contact\<close> nb Some]
        by auto
    next
      case None
      then show ?thesis
        using assms scheduleMessagesForContact_created [OF \<open>find (\<lambda>c. contact_id c = cId) (getContacts w) = Some contact\<close> nb None]
          \<open>find (\<lambda>c. contact_id c = cId) (getContacts w) = Some contact\<close> nb
        by simp
    qed
  qed
qed

lemma length_updateMessage [simp]:
  "length (getMessages (updateMessage i u w)) = length (getMessages w)"
  by (simp add: getMessages_updateMessage split: option.splits)

lemma nth_updateMessage:
  "getMessages (updateMessage i u w) ! k =
     (if findIndex (\<lambda>m. message_id m = i) (getMessages w) = Some k
      then applyUpdates (getMessages w ! k) u else getMessages w ! k)"
proof (cases "findIndex (\<lambda>m. message_id m = i) (getMessages w)")
  case None
  then show ?thesis by (simp add: getMessages_updateMessage)
next
  case (Some idx)
  then have "idx < length (getMessages w)" using findIndex_Some by blast
  then show ?thesis using Some by (auto simp: getMessages_updateMessage)
qed

lemma updateMessage_keeps:
  "message_id (getMessages (updateMessage i u w) ! k) = message_id (getMessages w ! k)"
  "contactId (getMessages (updateMessage i u w) ! k) = contactId (getMessages w ! k)"
  "year (getMessages (updateMessage i u w) ! k) = year (getMessages w ! k)"
  "scheduledFor (getMessages (updateMessage i u w) ! k) = scheduledFor (getMessages w ! k)"
  by (simp_all add: nth_updateMessage)

lemma YearFromDay_1e8: "YearFromDay 100000000 = 275760" "YearFromDay (- 100000000) = - 271821"
  by (simp_all add: YearFromDay_def DayFromYear_def)

lemma YearFromTime_valid:
  assumes "\<bar>t\<bar> \<le> 8640000000000000"
  shows "- 999999 \<le> YearFromTime t" "YearFromTime t \<le> 999999"
proof -
  have "- 8640000000000000 \<le> t" "t \<le> 8640000000000000" using assms by linarith+
  then have "Day (- 8640000000000000) \<le> Day t" "Day t \<le> Day 8640000000000000"
    by (simp_all add: Day_mono)
  moreover have "Day 8640000000000000 = 100000000" "Day (- 8640000000000000) = - 100000000"
    by (simp_all add: Day_def msPerDay_def)
  ultimately have "YearFromDay (- 100000000) \<le> YearFromDay (Day t)"
      "YearFromDay (Day t) \<le> YearFromDay 100000000"
    by (simp_all add: YearFromDay_mono)
  then show "- 999999 \<le> YearFromTime t" "YearFromTime t \<le> 999999"
    unfolding YearFromTime_def YearFromDay_1e8 by linarith+
qed

lemma getNextBirthdayDate_valid:
  assumes "getNextBirthdayDate z b ref = Some t"
  shows "\<bar>t\<bar> \<le> 8640000000000000"
  using assms unfolding getNextBirthdayDate_def
  by (auto simp: Let_def newDateFields_def TimeClip_def split: option.splits if_splits)

lemma sendNow_record:
  assumes "cId \<noteq> []" and "find (\<lambda>c. contact_id c = cId) (getContacts w) = Some contact"
  shows "length (getMessages (snd (sendNow env s cId bp w))) = Suc (length (getMessages w))
           \<and> message_id (getMessages (snd (sendNow env s cId bp w)) ! length (getMessages w))
               = uuid env (if whenTruthy bp = None then Suc (tick w) else tick w)
           \<and> scheduledFor (getMessages (snd (sendNow env s cId bp w)) ! length (getMessages w))
               = toISOString (clock env (Suc (if whenTruthy bp = None then Suc (tick w) else tick w)))
           \<and> year (getMessages (snd (sendNow env s cId bp w)) ! length (getMessages w))
               = getFullYear (localTZA env)
                   (clock env (Suc (Suc (Suc (if whenTruthy bp = None then Suc (tick w) else tick w)))))"
proof -
  obtain body w1 where b: "(case whenTruthy bp of Some given \<Rightarrow> (given, w)
      | None \<Rightarrow> generateBirthdayMessage env (contact_name contact) w) = (body, w1)"
    by (cases "(case whenTruthy bp of Some given \<Rightarrow> (given, w)
      | None \<Rightarrow> generateBirthdayMessage env (contact_name contact) w)")
  have m1: "getMessages w1 = getMessages w"
    "tick w1 = (if whenTruthy bp = None then Suc (tick w) else tick w)"
    using b
    by (auto simp: generateBirthdayMessage_def randomBelow_def Let_def split: option.splits)
  define rec where "rec = \<lparr>message_id = uuid env (tick w1),
                       contactId = contact_id contact,
                       contactName = contact_name contact,
                       phone = contact_phone contact,
                       messageBody = body,
                       scheduledFor = toISOString (clock env (Suc (tick w1))),
                       status = Sending,
                       notificationSid = None,
                       errorMessage = None,
                       sentAt = None,
                       deliveredAt = None,
                       createdAt = toISOString (clock env (Suc (Suc (tick w1)))),
                       year = getFullYear (localTZA env) (clock env (Suc (Suc (Suc (tick w1)))))\<rparr>"
  define w6 where "w6 = addMessage rec (w1\<lparr>tick := Suc (Suc (Suc (Suc (tick w1))))\<rparr>)"
  obtain result w7 where s: "sendBirthdaySms env (getSessionClient s w6) s (contact_id contact)
      (contact_phone contact) body w6 = (result, w7)"
    by (cases "sendBirthdaySms env (getSessionClient s w6) s (contact_id contact)
      (contact_phone contact) body w6")
  have "getMessages w7 = getMessages w6"
    using getMessages_sendBirthdaySms [of env "getSessionClient s w6" s "contact_id contact"
        "contact_phone contact" body w6] s by simp
  then have m7: "getMessages w7 = getMessages w @ [rec]"
    by (simp add: w6_def m1)
  define wend where "wend = snd (sendNow env s cId bp w)"
  have "\<exists>i u. wend = updateMessage i u w7 \<or> wend = (updateMessage i u (w7\<lparr>tick := Suc (tick w7)\<rparr>))\<lparr>timers := timers (updateMessage i u (w7\<lparr>tick := Suc (tick w7)\<rparr>)) @ [message_id rec]\<rparr>"
    unfolding wend_def using assms b s
    by (auto simp: sendNow_def Let_def uuidv4_def newDate_def rec_def [symmetric]
        w6_def [symmetric] setTimeoutDelivered_def)
  then obtain i u where "wend = updateMessage i u w7 \<or> wend = (updateMessage i u (w7\<lparr>tick := Suc (tick w7)\<rparr>))\<lparr>timers := timers (updateMessage i u (w7\<lparr>tick := Suc (tick w7)\<rparr>)) @ [message_id rec]\<rparr>"
    by blast
  then have "length (getMessages wend) = Suc (length (getMessages w))"
    "message_id (getMessages wend ! length (getMessages w)) = message_id rec"
    "scheduledFor (getMessages wend ! length (getMessages w)) = scheduledFor rec"
    "year (getMessages wend ! length (getMessages w)) = year rec"
    using m7 by (auto simp: updateMessage_keeps)
  then show ?thesis
    unfolding wend_def m1(2) [symmetric] by (simp add: rec_def)
qed

lemma next_new_year_plus10:
  "getNextBirthdayDate (fixedOffset 36000000) ''01-01'' 1710489600000 = Some 1735686000000"
  "getFullYear (fixedOffset 36000000) 1735686000000 = 2025"
  "toISOString 1735686000000 = ''2024-12-31T23:00:00.000Z''"
  "isoYearComponent ''2024-12-31T23:00:00.000Z'' = Some 2024"
  by code_simp+

lemma send_now_minus5:
  "toISOString 1735693201000 = ''2025-01-01T01:00:01.000Z''"
  "getFullYear (fixedOffset (- 18000000)) 1735693203000 = 2024"
  "isoYearComponent ''2025-01-01T01:00:01.000Z'' = Some 2025"
  by code_simp+

lemma processDueLoop_Cons:
  "processDueLoop env b now (msg # rest) w =
     (case processDueBody env b now msg w of
        (Threw e, w1) \<Rightarrow> (Threw e, w1)
      | (Returned u, w1) \<Rightarrow> processDueLoop env b now rest w1)"
  by (simp add: processDueBody_def isDue_def newDate_def Let_def
      split: option.splits prod.splits completion.splits)

lemma processDueBody_not_due:
  "\<not> isDue now msg \<Longrightarrow> processDueBody env b now msg w = (Returned (), w)"
  by (simp add: processDueBody_def)

lemma processDueLoop_skip:
  "\<forall>x \<in> set ms. \<not> isDue now x \<Longrightarrow> processDueLoop env b now ms w = (Returned (), w)"
proof (induction ms)
  case Nil
  then show ?case by simp
next
  case (Cons m ms)
  then show ?case
    unfolding processDueLoop_Cons by (simp add: processDueBody_not_due)
qed

lemma processDueLoop_skip_prefix:
  "\<forall>x \<in> set pre. \<not> isDue now x \<Longrightarrow>
     processDueLoop env b now (pre @ rest) w = processDueLoop env b now rest w"
proof (induction pre)
  case Nil
  then show ?case by simp
next
  case (Cons m ms)
  then show ?case
    unfolding append_Cons processDueLoop_Cons by (simp add: processDueBody_not_due)
qed

lemma processDueLoop_single:
  assumes "\<forall>x \<in> set pre. \<not> isDue now x" and "\<forall>x \<in> set post. \<not> isDue now x"
  shows "processDueLoop env b now (pre @ m # post) w = processDueBody env b now m w"
proof -
  obtain r w1 where b: "processDueBody env b now m w = (r, w1)"
    by (cases "processDueBody env b now m w")
  show ?thesis
    unfolding processDueLoop_skip_prefix [OF assms(1)] processDueLoop_Cons b
    using processDueLoop_skip [OF assms(2)]
    by (cases r) simp_all
qed

lemma findIndex_first:
  "i < length xs \<Longrightarrow> P (xs ! i) \<Longrightarrow> \<forall>j < i. \<not> P (xs ! j) \<Longrightarrow> findIndex P xs = Some i"
proof (induction xs arbitrary: i)
  case Nil
  then show ?case by simp
next
  case (Cons x xs)
  show ?case
  proof (cases i)
    case 0
    then show ?thesis using Cons.prems by simp
  next
    case (Suc k)
    have "\<not> P x" using Cons.prems(3) Suc by auto
    moreover have "findIndex P xs = Some k"
      using Cons.prems Suc by (intro Cons.IH) auto
    ultimately show ?thesis using Suc by simp
  qed
qed

text \<open>A dispatch cycle over a store in which exactly the message at index \<open>i\<close> is due.\<close>

lemma processDueMessages_single:
  assumes "i < length (getMessages w)"
    and "\<forall>j < length (getMessages w). j \<noteq> i \<longrightarrow> \<not> isDue (clock env (tick w)) (getMessages w ! j)"
  shows "processDueMessages env w =
           processDueBody env (getFirstActiveClient w) (clock env (tick w)) (getMessages w ! i)
             (w\<lparr>tick := Suc (tick w)\<rparr>)"
proof -
  define ms where "ms = getMessages w"
  have split: "ms = take i ms @ ms ! i # drop (Suc i) ms"
    using assms(1) unfolding ms_def by (rule id_take_nth_drop)
  have pre: "\<forall>x \<in> set (take i ms). \<not> isDue (clock env (tick w)) x"
    using assms unfolding ms_def [symmetric]
    by (auto simp: in_set_conv_nth)
  have post: "\<forall>x \<in> set (drop (Suc i) ms). \<not> isDue (clock env (tick w)) x"
    using assms unfolding ms_def [symmetric]
    by (auto simp: in_set_conv_nth)
  have "processDueLoop env b now ms w' = processDueBody env b now (ms ! i) w'"
    if "now = clock env (tick w)" for b now w'
    using processDueLoop_single [OF pre post, of env b "ms ! i" w'] split that by simp
  then show ?thesis
    by (simp add: processDueMessages_def newDate_def Let_def ms_def getFirstActiveClient_def)
qed

lemma getMessages_setTimeoutDelivered [simp]:
  "getMessages (setTimeoutDelivered i w) = getMessages w"
  "getContacts (setTimeoutDelivered i w) = getContacts w"
  "tick (setTimeoutDelivered i w) = tick w"
  "timers (setTimeoutDelivered i w) = timers w @ [i]"
  by (simp_all add: setTimeoutDelivered_def)

lemma applyUpdates_sending:
  "applyUpdates m (noUpdates\<lparr>upd_status := Some Sending\<rparr>) = m\<lparr>status := Sending\<rparr>"
  by (simp add: applyUpdates_def noUpdates_def)

lemma applyUpdates_sent:
  "applyUpdates m (noUpdates\<lparr>upd_status := Some Sent, upd_notificationSid := Some sid,
                              upd_sentAt := Some at\<rparr>)
     = m\<lparr>status := Sent, notificationSid := sid, sentAt := at\<rparr>"
  by (simp add: applyUpdates_def noUpdates_def)

lemma applyUpdates_failed:
  "applyUpdates m (noUpdates\<lparr>upd_status := Some Failed, upd_errorMessage := Some e\<rparr>)
     = m\<lparr>status := Failed, errorMessage := e\<rparr>"
  by (simp add: applyUpdates_def noUpdates_def)

lemma applyUpdates_cancelled:
  "applyUpdates m (noUpdates\<lparr>upd_status := Some Cancelled\<rparr>) = m\<lparr>status := Cancelled\<rparr>"
  by (simp add: applyUpdates_def noUpdates_def)

lemma applyUpdates_delivered:
  "applyUpdates m (noUpdates\<lparr>upd_status := Some Delivered, upd_deliveredAt := Some at\<rparr>)
     = m\<lparr>status := Delivered, deliveredAt := at\<rparr>"
  by (simp add: applyUpdates_def noUpdates_def)

lemma getMessages_updateMessage_at:
  assumes "i < length (getMessages w)"
    and "\<forall>j < i. message_id (getMessages w ! j) \<noteq> message_id (getMessages w ! i)"
  shows "getMessages (updateMessage (message_id (getMessages w ! i)) u w)
           = (getMessages w)[i := applyUpdates (getMessages w ! i) u]"
proof -
  have "findIndex (\<lambda>m. message_id m = message_id (getMessages w ! i)) (getMessages w) = Some i"
    using assms by (intro findIndex_first) auto
  then show ?thesis by (simp add: getMessages_updateMessage)
qed

text \<open>The body of the loop on a due message whose send fails.\<close>

lemma processDueBody_failure:
  assumes "isDue now msg"
    and "sendBirthdaySms env b ''scheduler'' (contactId msg) (phone msg) (messageBody msg)
           (updateMessage (message_id msg) (noUpdates\<lparr>upd_status := Some Sending\<rparr>) w) = (result, w2)"
    and "\<not> success result"
  shows "processDueBody env b now msg w =
           (Returned (),
            updateMessage (message_id msg)
              (noUpdates\<lparr>upd_status := Some Failed, upd_errorMessage := Some (error result)\<rparr>) w2)"
  using assms by (simp add: processDueBody_def)

text \<open>The body of the loop on a due message whose send succeeds.\<close>

lemma processDueBody_success:
  assumes "isDue now msg"
    and "sendBirthdaySms env b ''scheduler'' (contactId msg) (phone msg) (messageBody msg)
           (updateMessage (message_id msg) (noUpdates\<lparr>upd_status := Some Sending\<rparr>) w) = (result, w2)"
    and "success result"
  defines "w5 \<equiv> setTimeoutDelivered (message_id msg)
                    (updateMessage (message_id msg)
                       (noUpdates\<lparr>upd_status := Some Sent,
                                  upd_notificationSid := Some (resultSid result),
                                  upd_sentAt := Some (Some (toISOString (clock env (tick w2))))\<rparr>)
                       (w2\<lparr>tick := Suc (tick w2)\<rparr>))"
  shows "processDueBody env b now msg w =
           (case find (\<lambda>c. contact_id c = contactId msg) (getContacts w5) of
              None \<Rightarrow> (Returned (), w5)
            | Some contact \<Rightarrow>
                (case scheduleMessagesForContact env (contact_id contact) w5 of
                   (Threw e, w6) \<Rightarrow> (Threw e, w6)
                 | (Returned r, w6) \<Rightarrow> (Returned (), w6)))"
  using assms(1-3) unfolding w5_def by (simp add: processDueBody_def Let_def)

lemma sendBirthdaySms_frame:
  assumes "sendBirthdaySms env b s c p body w = (result, w2)"
  shows "getMessages w2 = getMessages w" "getContacts w2 = getContacts w" "timers w2 = timers w"
  using getMessages_sendBirthdaySms [of env b s c p body w]
    getContacts_sendBirthdaySms [of env b s c p body w]
    timers_sendBirthdaySms [of env b s c p body w] assms by simp_all

text \<open>What a call of scheduleMessagesForContact leaves in the store for a valid fire instant.\<close>

lemma scheduleMessagesForContact_ensures:
  assumes c: "find (\<lambda>c. contact_id c = cId) (getContacts w) = Some contact"
    and nb: "getNextBirthdayDate (localTZA env) (birthday contact) (clock env (tick w)) = Some nb"
  shows "\<exists>w' m k. scheduleMessagesForContact env cId w = (Returned (Some m), w')
           \<and> k < length (getMessages w') \<and> getMessages w' ! k = m
           \<and> contactId m = cId \<and> status m = Scheduled \<and> year m = getFullYear (localTZA env) nb
           \<and> (getMessages w' = getMessages w \<or> getMessages w' = getMessages w @ [m])
           \<and> timers w' = timers w"
proof (cases "find (\<lambda>m. contactId m = cId \<and> year m = getFullYear (localTZA env) nb
                           \<and> status m = Scheduled) (getMessages w)")
  case None
  have cid: "contact_id contact = cId" using c by (auto simp: find_Some_iff)
  show ?thesis
    unfolding scheduleMessagesForContact_created [OF c nb None]
    by (intro exI [of _ "addMessage (newMessage env contact nb (tick w))
            (w\<lparr>tick := Suc (Suc (Suc (Suc (tick w))))\<rparr>)"]
        exI [of _ "newMessage env contact nb (tick w)"] exI [of _ "length (getMessages w)"])
      (simp add: newMessage_def cid)
next
  case (Some existing)
  then obtain k where "k < length (getMessages w)" "getMessages w ! k = existing"
    "contactId existing = cId" "year existing = getFullYear (localTZA env) nb"
    "status existing = Scheduled"
    by (auto simp: find_Some_iff)
  then show ?thesis
    unfolding scheduleMessagesForContact_existing [OF c nb Some]
    by (intro exI [of _ "w\<lparr>tick := Suc (tick w)\<rparr>"] exI [of _ existing] exI [of _ k]) simp
qed

lemma updateMessage_twice_at:
  assumes i: "i < length (getMessages w)"
    and first: "\<forall>j < i. message_id (getMessages w ! j) \<noteq> message_id (getMessages w ! i)"
    and send: "sendBirthdaySms env b s c p body
                 (updateMessage (message_id (getMessages w ! i)) u1 w) = (result, w2)"
  shows "getMessages (updateMessage (message_id (getMessages w ! i)) u2 (w2\<lparr>tick := n\<rparr>))
           = (getMessages w)[i := applyUpdates (applyUpdates (getMessages w ! i) u1) u2]"
    and "getMessages (updateMessage (message_id (getMessages w ! i)) u2 w2)
           = (getMessages w)[i := applyUpdates (applyUpdates (getMessages w ! i) u1) u2]"
proof -
  define a where "a = message_id (getMessages w ! i)"
  have m1: "getMessages (updateMessage a u1 w) = (getMessages w)[i := applyUpdates (getMessages w ! i) u1]"
    unfolding a_def by (rule getMessages_updateMessage_at [OF i first])
  have m2: "getMessages w2 = (getMessages w)[i := applyUpdates (getMessages w ! i) u1]"
    using sendBirthdaySms_frame(1) [OF send] m1 by (simp add: a_def)
  have idx: "findIndex (\<lambda>m. message_id m = a) (getMessages w2) = Some i"
    unfolding m2 using i first
    by (intro findIndex_first) (auto simp: a_def nth_list_update)
  show "getMessages (updateMessage (message_id (getMessages w ! i)) u2 (w2\<lparr>tick := n\<rparr>))
           = (getMessages w)[i := applyUpdates (applyUpdates (getMessages w ! i) u1) u2]"
    unfolding a_def [symmetric] using idx i by (simp add: getMessages_updateMessage m2)
  show "getMessages (updateMessage (message_id (getMessages w ! i)) u2 w2)
           = (getMessages w)[i := applyUpdates (applyUpdates (getMessages w ! i) u1) u2]"
    unfolding a_def [symmetric] using idx i by (simp add: getMessages_updateMessage m2)
qed

lemma processDueMessages_success:
  assumes i: "i < length (getMessages w)"
    and due: "isDue (clock env (tick w)) (getMessages w ! i)"
    and others: "\<forall>j < length (getMessages w). j \<noteq> i
                   \<longrightarrow> \<not> isDue (clock env (tick w)) (getMessages w ! j)"
    and first: "\<forall>j < i. message_id (getMessages w ! j) \<noteq> message_id (getMessages w ! i)"
    and send: "sendBirthdaySms env (getFirstActiveClient w) ''scheduler''
                 (contactId (getMessages w ! i)) (phone (getMessages w ! i))
                 (messageBody (getMessages w ! i))
                 (updateMessage (message_id (getMessages w ! i))
                    (noUpdates\<lparr>upd_status := Some Sending\<rparr>) (w\<lparr>tick := Suc (tick w)\<rparr>))
               = (result, w2)"
    and ok: "success result"
  shows "getMessages (snd (processDueMessages env w)) ! i
           = (getMessages w ! i)\<lparr>status := Sent, notificationSid := resultSid result,
                sentAt := Some (toISOString (clock env (tick w2)))\<rparr>
         \<and> message_id (getMessages w ! i) \<in> set (timers (snd (processDueMessages env w)))
         \<and> (\<forall>contact fire.
               find (\<lambda>c. contact_id c = contactId (getMessages w ! i)) (getContacts w) = Some contact
               \<longrightarrow> getNextBirthdayDate (localTZA env) (birthday contact) (clock env (Suc (tick w2)))
                     = Some fire
               \<longrightarrow> fst (processDueMessages env w) = Returned ()
                   \<and> (\<exists>k < length (getMessages (snd (processDueMessages env w))).
                         k \<noteq> i
                         \<and> contactId (getMessages (snd (processDueMessages env w)) ! k)
                             = contactId (getMessages w ! i)
                         \<and> status (getMessages (snd (processDueMessages env w)) ! k) = Scheduled
                         \<and> year (getMessages (snd (processDueMessages env w)) ! k)
                             = getFullYear (localTZA env) fire))"
proof -
  let ?w1 = "w\<lparr>tick := Suc (tick w)\<rparr>"
  define msg where "msg = getMessages w ! i"
  define sentMsg where "sentMsg = msg\<lparr>status := Sent, notificationSid := resultSid result,
                sentAt := Some (toISOString (clock env (tick w2)))\<rparr>"
  define w5 where "w5 = setTimeoutDelivered (message_id msg)
                    (updateMessage (message_id msg)
                       (noUpdates\<lparr>upd_status := Some Sent,
                                  upd_notificationSid := Some (resultSid result),
                                  upd_sentAt := Some (Some (toISOString (clock env (tick w2))))\<rparr>)
                       (w2\<lparr>tick := Suc (tick w2)\<rparr>))"
  have i1: "i < length (getMessages ?w1)" using i by simp
  have f1: "\<forall>j < i. message_id (getMessages ?w1 ! j) \<noteq> message_id (getMessages ?w1 ! i)"
    using first by simp
  have s1: "sendBirthdaySms env (getFirstActiveClient w) ''scheduler''
                 (contactId (getMessages w ! i)) (phone (getMessages w ! i))
                 (messageBody (getMessages w ! i))
                 (updateMessage (message_id (getMessages ?w1 ! i))
                    (noUpdates\<lparr>upd_status := Some Sending\<rparr>) ?w1) = (result, w2)"
    using send by simp
  have m5: "getMessages w5 = (getMessages w)[i := sentMsg]"
    unfolding w5_def msg_def sentMsg_def
    using updateMessage_twice_at(1) [OF i1 f1 s1, of _ "Suc (tick w2)"]
    by (simp add: applyUpdates_sending applyUpdates_sent)
  have c5: "getContacts w5 = getContacts w"
    unfolding w5_def using sendBirthdaySms_frame(2) [OF send] by simp
  have t5: "tick w5 = Suc (tick w2)" "message_id msg \<in> set (timers w5)"
    unfolding w5_def by simp_all
  have body: "processDueMessages env w =
      (case find (\<lambda>c. contact_id c = contactId msg) (getContacts w) of
         None \<Rightarrow> (Returned (), w5)
       | Some contact \<Rightarrow>
           (case scheduleMessagesForContact env (contact_id contact) w5 of
              (Threw e, w6) \<Rightarrow> (Threw e, w6)
            | (Returned r, w6) \<Rightarrow> (Returned (), w6)))"
    unfolding processDueMessages_single [OF i others] c5 [symmetric] w5_def msg_def
    by (rule processDueBody_success [OF due send ok])
  define wend where "wend = snd (processDueMessages env w)"
  have keep: "getMessages (snd (scheduleMessagesForContact env c w5)) ! i = sentMsg
              \<and> message_id msg \<in> set (timers (snd (scheduleMessagesForContact env c w5)))" for c
  proof (cases "find (\<lambda>x. contact_id x = c) (getContacts w5)")
    case None
    then show ?thesis using m5 i t5(2) by (simp add: scheduleMessagesForContact_def)
  next
    case (Some contact)
    show ?thesis
    proof (cases "getNextBirthdayDate (localTZA env) (birthday contact) (clock env (tick w5))")
      case None
      then show ?thesis
        using Some m5 i t5(2)
        by (simp add: scheduleMessagesForContact_def newDate_def uuidv4_def
            generateBirthdayMessage_def randomBelow_def Let_def find_None_iff
            split: option.splits)
    next
      case nb: (Some nb)
      obtain w' m k where "scheduleMessagesForContact env c w5 = (Returned (Some m), w')"
        "getMessages w' = getMessages w5 \<or> getMessages w' = getMessages w5 @ [m]"
        "timers w' = timers w5"
        using scheduleMessagesForContact_ensures [OF Some nb] by blast
      then show ?thesis using m5 i t5(2) by (auto simp: nth_append)
    qed
  qed
  have part1: "getMessages wend ! i = sentMsg \<and> message_id msg \<in> set (timers wend)"
  proof (cases "find (\<lambda>c. contact_id c = contactId msg) (getContacts w)")
    case None
    then show ?thesis unfolding wend_def body using m5 i t5(2) by simp
  next
    case (Some contact)
    have "wend = snd (scheduleMessagesForContact env (contact_id contact) w5)"
      unfolding wend_def body using Some
      by (simp split: prod.splits completion.splits)
    then show ?thesis using keep by simp
  qed
  have part2: "fst (processDueMessages env w) = Returned ()
       \<and> (\<exists>k < length (getMessages wend). k \<noteq> i
             \<and> contactId (getMessages wend ! k) = contactId msg
             \<and> status (getMessages wend ! k) = Scheduled
             \<and> year (getMessages wend ! k) = getFullYear (localTZA env) fire)"
    if c: "find (\<lambda>c. contact_id c = contactId msg) (getContacts w) = Some contact"
      and nb: "getNextBirthdayDate (localTZA env) (birthday contact) (clock env (Suc (tick w2)))
                 = Some fire"
    for contact fire
  proof -
    have cid: "contact_id contact = contactId msg" using c by (auto simp: find_Some_iff)
    have c': "find (\<lambda>c. contact_id c = contact_id contact) (getContacts w5) = Some contact"
      using c by (simp add: c5 cid)
    have nb': "getNextBirthdayDate (localTZA env) (birthday contact) (clock env (tick w5)) = Some fire"
      using nb by (simp add: t5)
    obtain w' m k where r: "scheduleMessagesForContact env (contact_id contact) w5
          = (Returned (Some m), w')"
      "k < length (getMessages w')" "getMessages w' ! k = m" "contactId m = contact_id contact"
      "status m = Scheduled" "year m = getFullYear (localTZA env) fire"
      using scheduleMessagesForContact_ensures [OF c' nb'] by blast
    have e: "processDueMessages env w = (Returned (), w')"
      unfolding body using c r(1) by simp
    then have we: "wend = w'" by (simp add: wend_def)
    have "getMessages w' ! i = sentMsg"
      using keep [of "contact_id contact"] r(1) by simp
    then have "k \<noteq> i" using r(3,5) by (auto simp: sentMsg_def)
    then show ?thesis
      using e r(2-6) unfolding we by (auto simp: cid)
  qed
  show ?thesis
    using part1 part2
    unfolding wend_def [symmetric] msg_def [symmetric] sentMsg_def [symmetric]
    by blast
qed

lemma sendBirthdaySms_simulated:
  "sendBirthdaySms env None s c p body w =
     (\<lparr>success = True, resultSid = Some (''SIM_'' @ showInt (clock env (tick w))), error = None\<rparr>,
      w\<lparr>tick := Suc (tick w)\<rparr>)"
  by (simp add: sendBirthdaySms_def newDate_def)

lemma sessionNotifyServiceSids_frame [simp]:
  "sessionNotifyServiceSids (updateMessage i u w) = sessionNotifyServiceSids w"
  "sessionNotifyServiceSids (w\<lparr>tick := n\<rparr>) = sessionNotifyServiceSids w"
  "sessionNotifyServiceSids (exampleWorld born msgs clients) = Map.empty"
  by (simp_all add: updateMessage_def saveData_def loadData_def Let_def exampleWorld_def
      split: option.splits)

text \<open>A send through the example bundle, whose credentials carry a Notify service id.\<close>

lemma sendBirthdaySms_exampleBundle:
  assumes "sessionNotifyServiceSids w ''scheduler'' = None"
  shows "sendBirthdaySms env (Some exampleBundle) ''scheduler'' c p body w =
           ((case createNotification env (tick w) of
               NotificationResult sid \<Rightarrow> \<lparr>success = True, resultSid = sid, error = None\<rparr>
             | NoResult \<Rightarrow> \<lparr>success = False, resultSid = None,
                             error = Some ''No result in notification response''\<rparr>
             | ThrewApiError statusCode errorBody \<Rightarrow>
                 if statusCode = 400 \<or> statusCode = 403
                 then \<lparr>success = False, resultSid = None,
                        error = Some (''SMS failed ('' @ showInt statusCode
                          @ ''): This may be a trial account restriction. Ensure the recipient number is verified in your account. ''
                          @ errorBody)\<rparr>
                 else \<lparr>success = False, resultSid = None,
                        error = Some (''SMS API error ('' @ showInt statusCode @ ''): '' @ errorBody)\<rparr>
             | ThrewError errMsg \<Rightarrow> \<lparr>success = False, resultSid = None, error = Some errMsg\<rparr>),
            (rememberServiceSid ''scheduler'' ''IS1'' w)\<lparr>tick := Suc (tick w)\<rparr>)"
  using assms
  by (simp add: sendBirthdaySms_def ensureNotifyService_def whenTruthy_def exampleBundle_def
      rememberServiceSid_def Let_def split: NotificationResponse.splits)

lemma parse_fire_2024: "parseDate ''2024-03-15T09:00:00.000Z'' = Some 1710493200000"
  by code_simp

lemma exampleMessage_due:
  "isDue 1710493260000 (exampleMessage i c Scheduled)"
  by (simp add: isDue_def exampleMessage_def parse_fire_2024)

lemma exampleMessage_simps [simp]:
  "message_id (exampleMessage i c st) = i"
  "contactId (exampleMessage i c st) = c"
  "status (exampleMessage i c st) = st"
  "year (exampleMessage i c st) = 2024"
  by (simp_all add: exampleMessage_def)

lemma next_after_dispatch: "getNextBirthdayDate (fixedOffset 0) ''03-15'' 1710493263000 = Some 1742029200000"
  by code_simp

lemma getFirstActiveClient_example [simp]:
  "getFirstActiveClient (exampleWorld born msgs []) = None"
  "getFirstActiveClient (exampleWorld born msgs [(s, b)]) = Some b"
  by (simp_all add: getFirstActiveClient_def)

lemma show_clock: "showInt 1710493261000 = ''1710493261000''"
  by code_simp

subsection \<open>The lifecycle of a message\<close>

lemma forward_refl [simp]: "forward s s"
  by (cases s) simp_all

lemma forward_trans: "forward a b \<Longrightarrow> forward b c \<Longrightarrow> forward a c"
  by (cases a; cases b; auto)

lemma forward_settled:
  assumes "forward s s'" and "s = Sent \<or> s = Delivered \<or> s = Failed \<or> s = Cancelled"
  shows "s' = s \<or> (s = Sent \<and> s' = Delivered)"
  using assms by (cases s) auto

lemma advances_refl [simp]: "advances w w"
  by (simp add: advances_def)

lemma advances_trans: "advances a b \<Longrightarrow> advances b c \<Longrightarrow> advances a c"
  unfolding advances_def by (meson forward_trans order_trans)

lemma lookupMessage_frame [simp]:
  "lookupMessage (w\<lparr>tick := n\<rparr>) i = lookupMessage w i"
  "lookupMessage (w\<lparr>timers := ts\<rparr>) i = lookupMessage w i"
  "lookupMessage (setTimeoutDelivered a w) i = lookupMessage w i"
  by (simp_all add: lookupMessage_def)

lemma statusOf_frame [simp]:
  "statusOf (w\<lparr>tick := n\<rparr>) i = statusOf w i"
  "statusOf (w\<lparr>timers := ts\<rparr>) i = statusOf w i"
  "statusOf (setTimeoutDelivered a w) i = statusOf w i"
  by (simp_all add: statusOf_def)

lemma find_update_first:
  "find (\<lambda>m. message_id m = j)
     (case findIndex (\<lambda>m. message_id m = i) xs of
        None \<Rightarrow> xs
      | Some idx \<Rightarrow> xs[idx := applyUpdates (xs ! idx) u])
   = (if j = i then map_option (\<lambda>m. applyUpdates m u) (find (\<lambda>m. message_id m = i) xs)
      else find (\<lambda>m. message_id m = j) xs)"
proof (induction xs)
  case Nil
  then show ?case by simp
next
  case (Cons x xs)
  show ?case
  proof (cases "message_id x = i")
    case True
    then show ?thesis by simp
  next
    case False
    then show ?thesis
      using Cons by (cases "findIndex (\<lambda>m. message_id m = i) xs") auto
  qed
qed

lemma lookupMessage_updateMessage:
  "lookupMessage (updateMessage i u w) j =
     (if j = i then map_option (\<lambda>m. applyUpdates m u) (lookupMessage w i) else lookupMessage w j)"
  unfolding lookupMessage_def getMessages_updateMessage by (rule find_update_first)

lemma statusOf_updateMessage:
  "statusOf (updateMessage i u w) j =
     (if j = i
      then map_option (\<lambda>s. case upd_status u of None \<Rightarrow> s | Some v \<Rightarrow> v) (statusOf w i)
      else statusOf w j)"
  by (simp add: statusOf_def lookupMessage_updateMessage option.map_comp comp_def)

lemma lookupMessage_addMessage:
  "lookupMessage (addMessage m w) j =
     (case lookupMessage w j of
        Some x \<Rightarrow> Some x
      | None \<Rightarrow> if message_id m = j then Some m else None)"
  by (simp add: lookupMessage_def find_snoc)

lemma statusOf_addMessage:
  "statusOf (addMessage m w) j =
     (case statusOf w j of
        Some s \<Rightarrow> Some s
      | None \<Rightarrow> if message_id m = j then Some (status m) else None)"
  by (simp add: statusOf_def lookupMessage_addMessage split: option.splits)

lemma statusOf_None: "statusOf w i = None \<longleftrightarrow> i \<notin> message_id ` set (getMessages w)"
  by (auto simp: statusOf_def lookupMessage_def find_None_iff)

lemma map_ids_updateMessage [simp]:
  "map message_id (getMessages (updateMessage i u w)) = map message_id (getMessages w)"
proof (cases "findIndex (\<lambda>m. message_id m = i) (getMessages w)")
  case None
  then show ?thesis by (simp add: getMessages_updateMessage)
next
  case (Some idx)
  then have "idx < length (getMessages w)" using findIndex_Some by blast
  then have "(map message_id (getMessages w))[idx := message_id (getMessages w ! idx)]
               = map message_id (getMessages w)"
    by (metis list_update_id nth_map)
  then show ?thesis
    using Some by (simp add: getMessages_updateMessage map_update)
qed

lemma ids_updateMessage [simp]:
  "message_id ` set (getMessages (updateMessage i u w)) = message_id ` set (getMessages w)"
  using map_ids_updateMessage [of i u w] by (metis set_map)

lemma statusOf_sendBirthdaySms:
  assumes "sendBirthdaySms env b s c p body w = (result, w2)"
  shows "statusOf w2 i = statusOf w i"
  using sendBirthdaySms_frame(1) [OF assms] by (simp add: statusOf_def lookupMessage_def)

lemma tick_sendBirthdaySms:
  assumes "sendBirthdaySms env b s c p body w = (result, w2)"
  shows "tick w \<le> tick w2"
  using assms
  by (auto simp: sendBirthdaySms_def ensureNotifyService_def newDate_def rememberServiceSid_def
      setNotifyServiceSid_def loadData_def saveData_def Let_def
      split: option.splits prod.splits ServiceResponse.splits NotificationResponse.splits
        if_splits)

lemma wellFormed_cong:
  assumes "wellFormed env w" and "getMessages w2 = getMessages w" and "timers w2 = timers w"
    and "tick w \<le> tick w2"
  shows "wellFormed env w2" and "advances w w2"
proof -
  have s: "statusOf w2 i = statusOf w i" for i
    using assms(2) by (simp add: statusOf_def lookupMessage_def)
  show "wellFormed env w2"
    using assms unfolding wellFormed_def s by (auto simp: le_trans)
  show "advances w w2"
    using assms(4) by (simp add: advances_def s)
qed

lemma wellFormed_tick:
  assumes "wellFormed env w" and "tick w \<le> n"
  shows "wellFormed env (w\<lparr>tick := n\<rparr>)" and "advances w (w\<lparr>tick := n\<rparr>)"
  using wellFormed_cong [OF assms(1), of "w\<lparr>tick := n\<rparr>"] assms(2) by simp_all

lemma wellFormed_drop_timer:
  assumes "wellFormed env w"
  shows "wellFormed env (w\<lparr>timers := take k (timers w) @ drop (Suc k) (timers w)\<rparr>)"
proof -
  have "set (take k (timers w) @ drop (Suc k) (timers w)) \<subseteq> set (timers w)"
    by (auto dest: in_set_takeD in_set_dropD)
  then show ?thesis
    using assms unfolding wellFormed_def by (simp add: subset_iff) blast
qed

lemma wellFormed_setTimeout:
  assumes "wellFormed env w" and "statusOf w i = Some Sent"
  shows "wellFormed env (setTimeoutDelivered i w)"
proof -
  have "i \<in> message_id ` set (getMessages w)"
    using assms(2) statusOf_None [of w i] by auto
  then show ?thesis
    using assms unfolding wellFormed_def by simp
qed

lemma wellFormed_guarded_update:
  assumes wf: "wellFormed env w" and u: "upd_status u = Some s'"
    and ok: "\<forall>s. statusOf w i = Some s \<longrightarrow> forward s s'"
  shows "wellFormed env (updateMessage i u w)" and "advances w (updateMessage i u w)"
proof -
  have st: "statusOf (updateMessage i u w) j =
              (if j = i then map_option (\<lambda>s. s') (statusOf w i) else statusOf w j)" for j
    by (simp add: statusOf_updateMessage u)
  have t: "statusOf (updateMessage i u w) j = Some Sent \<or> statusOf (updateMessage i u w) j = Some Delivered"
    if "j \<in> set (timers w)" for j
  proof (cases "j = i")
    case False
    then show ?thesis using wf that unfolding wellFormed_def st by simp
  next
    case True
    have "statusOf w i = Some Sent \<or> statusOf w i = Some Delivered"
      using wf that True unfolding wellFormed_def by simp
    then show ?thesis
      using ok True unfolding st by auto
  qed
  show "wellFormed env (updateMessage i u w)"
    using wf t unfolding wellFormed_def by simp
  show "advances w (updateMessage i u w)"
    unfolding advances_def st using ok by auto
qed

lemma wellFormed_append:
  assumes wf: "wellFormed env w" and m: "message_id m = uuid env k" and k: "tick w \<le> k" "k < n"
  shows "wellFormed env (addMessage m (w\<lparr>tick := n\<rparr>))"
    and "advances w (addMessage m (w\<lparr>tick := n\<rparr>))"
    and "statusOf (addMessage m (w\<lparr>tick := n\<rparr>)) (message_id m) = Some (status m)"
    and "\<forall>j s. statusOf w j = Some s \<longrightarrow> statusOf (addMessage m (w\<lparr>tick := n\<rparr>)) j = Some s"
proof -
  have fresh: "uuid env k \<notin> message_id ` set (getMessages w)"
    using wf k(1) unfolding wellFormed_def by blast
  then have none: "statusOf w (message_id m) = None"
    by (simp add: statusOf_None m)
  show s: "statusOf (addMessage m (w\<lparr>tick := n\<rparr>)) (message_id m) = Some (status m)"
    using none by (simp add: statusOf_addMessage)
  show keep: "\<forall>j s. statusOf w j = Some s \<longrightarrow> statusOf (addMessage m (w\<lparr>tick := n\<rparr>)) j = Some s"
    by (simp add: statusOf_addMessage)
  show "advances w (addMessage m (w\<lparr>tick := n\<rparr>))"
    unfolding advances_def using keep k by auto
  have later: "uuid env k' \<noteq> uuid env k" if "n \<le> k'" for k'
    using wf k that unfolding wellFormed_def by (metis le_less_trans not_le)
  have d: "distinct (map message_id (getMessages w @ [m]))"
    using wf fresh unfolding wellFormed_def by (simp add: m)
  have f: "\<forall>k' \<ge> n. uuid env k' \<notin> message_id ` set (getMessages w @ [m])"
    using wf k later unfolding wellFormed_def by (auto simp: m)
  have inj: "\<forall>j \<ge> n. \<forall>k' > j. uuid env j \<noteq> uuid env k'"
    using wf k unfolding wellFormed_def by (meson le_trans less_imp_le)
  have sub: "set (timers w) \<subseteq> message_id ` set (getMessages w @ [m])"
    using wf unfolding wellFormed_def by auto
  have t: "\<forall>i \<in> set (timers w). statusOf (addMessage m (w\<lparr>tick := n\<rparr>)) i = Some Sent
              \<or> statusOf (addMessage m (w\<lparr>tick := n\<rparr>)) i = Some Delivered"
    using wf keep unfolding wellFormed_def by auto
  show "wellFormed env (addMessage m (w\<lparr>tick := n\<rparr>))"
    unfolding wellFormed_def using d f inj sub t by simp
qed

text \<open>scheduleMessagesForContact keeps the store well formed and changes no stored status.\<close>

lemma wellFormed_scheduleMessagesForContact:
  assumes wf: "wellFormed env w"
  shows "wellFormed env (snd (scheduleMessagesForContact env c w))"
    and "advances w (snd (scheduleMessagesForContact env c w))"
    and "\<forall>j s. statusOf w j = Some s
           \<longrightarrow> statusOf (snd (scheduleMessagesForContact env c w)) j = Some s"
proof -
  define w' where "w' = snd (scheduleMessagesForContact env c w)"
  have "wellFormed env w' \<and> advances w w' \<and> (\<forall>j s. statusOf w j = Some s \<longrightarrow> statusOf w' j = Some s)"
  proof (cases "find (\<lambda>x. contact_id x = c) (getContacts w)")
    case None
    then show ?thesis using wf by (simp add: w'_def scheduleMessagesForContact_def)
  next
    case (Some contact)
    show ?thesis
    proof (cases "getNextBirthdayDate (localTZA env) (birthday contact) (clock env (tick w))")
      case None
      then have "w' = w\<lparr>tick := Suc (Suc (Suc (tick w)))\<rparr>"
        using Some
        by (simp add: w'_def scheduleMessagesForContact_def newDate_def uuidv4_def
            generateBirthdayMessage_def randomBelow_def Let_def find_None_iff
            split: option.splits)
      then show ?thesis using wellFormed_tick [OF wf, of "Suc (Suc (Suc (tick w)))"] by simp
    next
      case nb: (Some nb)
      show ?thesis
      proof (cases "find (\<lambda>m. contactId m = c \<and> year m = getFullYear (localTZA env) nb
                             \<and> status m = Scheduled) (getMessages w)")
        case (Some existing)
        have "w' = w\<lparr>tick := Suc (tick w)\<rparr>"
          unfolding w'_def
          using scheduleMessagesForContact_existing [OF \<open>find (\<lambda>x. contact_id x = c) (getContacts w) = Some contact\<close> nb Some]
          by simp
        then show ?thesis using wellFormed_tick [OF wf, of "Suc (tick w)"] by simp
      next
        case None
        have e: "w' = addMessage (newMessage env contact nb (tick w))
                        (w\<lparr>tick := Suc (Suc (Suc (Suc (tick w))))\<rparr>)"
          unfolding w'_def
          using scheduleMessagesForContact_created [OF \<open>find (\<lambda>x. contact_id x = c) (getContacts w) = Some contact\<close> nb None]
          by simp
        have m: "message_id (newMessage env contact nb (tick w)) = uuid env (Suc (Suc (tick w)))"
          by (simp add: newMessage_def)
        show ?thesis
          unfolding e
          using wellFormed_append [OF wf m, of "Suc (Suc (Suc (Suc (tick w))))"] by simp
      qed
    qed
  qed
  then show "wellFormed env (snd (scheduleMessagesForContact env c w))"
    and "advances w (snd (scheduleMessagesForContact env c w))"
    and "\<forall>j s. statusOf w j = Some s
           \<longrightarrow> statusOf (snd (scheduleMessagesForContact env c w)) j = Some s"
    by (simp_all add: w'_def)
qed

lemma find_distinct_ids:
  "distinct (map message_id xs) \<Longrightarrow> m \<in> set xs \<Longrightarrow> find (\<lambda>x. message_id x = message_id m) xs = Some m"
  by (induction xs) (auto simp: image_iff)

lemma statusOf_distinct:
  assumes "distinct (map message_id (getMessages w))" and "m \<in> set (getMessages w)"
  shows "statusOf w (message_id m) = Some (status m)"
  using find_distinct_ids [OF assms] by (simp add: statusOf_def lookupMessage_def)

lemma snd_rethrow:
  "snd (case p of (Threw e, w6) \<Rightarrow> (Threw e, w6) | (Returned r, w6) \<Rightarrow> (Returned (), w6)) = snd p"
  by (simp split: prod.splits completion.splits)

text \<open>One pass of the dispatch loop, for a message that is still scheduled in the store.\<close>

lemma wellFormed_processDueBody:
  assumes wf: "wellFormed env w"
    and a: "isDue now msg \<longrightarrow> statusOf w (message_id msg) = Some Scheduled"
  shows "wellFormed env (snd (processDueBody env b now msg w))"
    and "advances w (snd (processDueBody env b now msg w))"
    and "\<forall>j s. j \<noteq> message_id msg \<longrightarrow> statusOf w j = Some s
           \<longrightarrow> statusOf (snd (processDueBody env b now msg w)) j = Some s"
proof -
  define w' where "w' = snd (processDueBody env b now msg w)"
  have "wellFormed env w' \<and> advances w w'
        \<and> (\<forall>j s. j \<noteq> message_id msg \<longrightarrow> statusOf w j = Some s \<longrightarrow> statusOf w' j = Some s)"
  proof (cases "isDue now msg")
    case False
    then show ?thesis using wf by (simp add: w'_def processDueBody_not_due)
  next
    case True
    define i where "i = message_id msg"
    have st: "statusOf w i = Some Scheduled" using a True by (simp add: i_def)
    define w1 where "w1 = updateMessage i (noUpdates\<lparr>upd_status := Some Sending\<rparr>) w"
    have wf1: "wellFormed env w1" and ad1: "advances w w1"
      unfolding w1_def by (rule wellFormed_guarded_update [OF wf]; simp add: st)+
    have s1: "statusOf w1 j = (if j = i then Some Sending else statusOf w j)" for j
      by (simp add: w1_def statusOf_updateMessage st)
    obtain result w2 where send: "sendBirthdaySms env b ''scheduler'' (contactId msg) (phone msg)
        (messageBody msg) w1 = (result, w2)"
      by (cases "sendBirthdaySms env b ''scheduler'' (contactId msg) (phone msg) (messageBody msg) w1")
    have wf2: "wellFormed env w2" and ad2: "advances w1 w2"
      by (rule wellFormed_cong [OF wf1 sendBirthdaySms_frame(1) [OF send]
            sendBirthdaySms_frame(3) [OF send] tick_sendBirthdaySms [OF send]])+
    have s2: "statusOf w2 j = (if j = i then Some Sending else statusOf w j)" for j
      using statusOf_sendBirthdaySms [OF send] s1 by simp
    show ?thesis
    proof (cases "success result")
      case False
      define u where "u = noUpdates\<lparr>upd_status := Some Failed, upd_errorMessage := Some (error result)\<rparr>"
      have e: "w' = updateMessage i u w2"
        unfolding w'_def u_def i_def
        using processDueBody_failure [OF True send [unfolded w1_def i_def] False] by simp
      have "wellFormed env (updateMessage i u w2)" "advances w2 (updateMessage i u w2)"
        by (rule wellFormed_guarded_update [OF wf2, of u Failed]; simp add: u_def s2)+
      moreover have "statusOf (updateMessage i u w2) j = statusOf w j" if "j \<noteq> i" for j
        using that by (simp add: statusOf_updateMessage s2)
      ultimately show ?thesis
        unfolding e i_def [symmetric] using ad1 ad2 by (auto intro: advances_trans)
    next
      case ok: True
      define u where "u = noUpdates\<lparr>upd_status := Some Sent,
                                  upd_notificationSid := Some (resultSid result),
                                  upd_sentAt := Some (Some (toISOString (clock env (tick w2))))\<rparr>"
      define w3 where "w3 = w2\<lparr>tick := Suc (tick w2)\<rparr>"
      define w4 where "w4 = updateMessage i u w3"
      define w5 where "w5 = setTimeoutDelivered i w4"
      have wf3: "wellFormed env w3" and ad3: "advances w2 w3"
        unfolding w3_def by (rule wellFormed_tick [OF wf2]; simp)+
      have wf4: "wellFormed env w4" and ad4: "advances w3 w4"
        unfolding w4_def
        by (rule wellFormed_guarded_update [OF wf3, of u Sent]; simp add: u_def w3_def s2)+
      have s4: "statusOf w4 j = (if j = i then Some Sent else statusOf w j)" for j
        by (simp add: w4_def statusOf_updateMessage w3_def s2 u_def)
      have wf5: "wellFormed env w5"
        unfolding w5_def by (rule wellFormed_setTimeout [OF wf4]) (simp add: s4)
      have s5: "statusOf w5 j = (if j = i then Some Sent else statusOf w j)" for j
        by (simp add: w5_def s4)
      have "advances w4 w5" by (simp add: advances_def w5_def)
      then have ad5: "advances w w5"
        using ad1 ad2 ad3 ad4 by (blast intro: advances_trans)
      have e: "w' = w5 \<or> (\<exists>c. w' = snd (scheduleMessagesForContact env c w5))"
      proof (cases "find (\<lambda>c. contact_id c = contactId msg) (getContacts w5)")
        case None
        then have "w' = w5"
          unfolding w'_def w5_def w4_def w3_def u_def i_def
          using processDueBody_success [OF True send [unfolded w1_def i_def] ok] by simp
        then show ?thesis by simp
      next
        case (Some contact)
        then have "w' = snd (scheduleMessagesForContact env (contact_id contact) w5)"
          unfolding w'_def w5_def w4_def w3_def u_def i_def
          using processDueBody_success [OF True send [unfolded w1_def i_def] ok]
          by (simp add: snd_rethrow)
        then show ?thesis by blast
      qed
      show ?thesis
      proof (rule disjE [OF e])
        assume "w' = w5"
        then show ?thesis using wf5 ad5 s5 by (simp add: i_def)
      next
        assume "\<exists>c. w' = snd (scheduleMessagesForContact env c w5)"
        then obtain c where c: "w' = snd (scheduleMessagesForContact env c w5)" ..
        show ?thesis
          unfolding c i_def [symmetric]
          using wellFormed_scheduleMessagesForContact [OF wf5, of c] ad5 s5
          by (auto intro: advances_trans)
      qed
    qed
  qed
  then show "wellFormed env (snd (processDueBody env b now msg w))"
    and "advances w (snd (processDueBody env b now msg w))"
    and "\<forall>j s. j \<noteq> message_id msg \<longrightarrow> statusOf w j = Some s
           \<longrightarrow> statusOf (snd (processDueBody env b now msg w)) j = Some s"
    by (simp_all add: w'_def)
qed

lemma wellFormed_processDueLoop:
  assumes "wellFormed env w" and "distinct (map message_id rest)"
    and "\<forall>msg \<in> set rest. status msg = Scheduled \<longrightarrow> statusOf w (message_id msg) = Some Scheduled"
  shows "wellFormed env (snd (processDueLoop env b now rest w))
         \<and> advances w (snd (processDueLoop env b now rest w))"
  using assms
proof (induction rest arbitrary: w)
  case Nil
  then show ?case by simp
next
  case (Cons msg rest)
  obtain r w1 where body: "processDueBody env b now msg w = (r, w1)"
    by (cases "processDueBody env b now msg w")
  have due: "isDue now msg \<longrightarrow> statusOf w (message_id msg) = Some Scheduled"
    using Cons.prems(3) by (simp add: isDue_def)
  have wf1: "wellFormed env w1" and ad1: "advances w w1"
    and keep: "\<forall>j s. j \<noteq> message_id msg \<longrightarrow> statusOf w j = Some s \<longrightarrow> statusOf w1 j = Some s"
    using wellFormed_processDueBody [OF Cons.prems(1) due, of b] body by simp_all
  show ?case
  proof (cases r)
    case (Threw e)
    then show ?thesis
      unfolding processDueLoop_Cons body using wf1 ad1 by simp
  next
    case (Returned u)
    have d: "distinct (map message_id rest)" using Cons.prems(2) by simp
    have li: "\<forall>m \<in> set rest. status m = Scheduled \<longrightarrow> statusOf w1 (message_id m) = Some Scheduled"
      using Cons.prems(2,3) keep by (auto simp: image_iff)
    show ?thesis
      unfolding processDueLoop_Cons body using Returned Cons.IH [OF wf1 d li] ad1
      by (auto intro: advances_trans)
  qed
qed

lemma wellFormed_processDueMessages:
  assumes "wellFormed env w"
  shows "wellFormed env (snd (processDueMessages env w))"
    and "advances w (snd (processDueMessages env w))"
proof -
  let ?w1 = "w\<lparr>tick := Suc (tick w)\<rparr>"
  have wf1: "wellFormed env ?w1" and ad1: "advances w ?w1"
    by (rule wellFormed_tick [OF assms]; simp)+
  have d: "distinct (map message_id (getMessages w))"
    using assms by (simp add: wellFormed_def)
  have li: "\<forall>msg \<in> set (getMessages w). status msg = Scheduled
              \<longrightarrow> statusOf ?w1 (message_id msg) = Some Scheduled"
    using statusOf_distinct [OF d] by simp
  have e: "snd (processDueMessages env w)
             = snd (processDueLoop env (getFirstActiveClient ?w1) (clock env (tick w)) (getMessages w) ?w1)"
    by (simp add: processDueMessages_def newDate_def Let_def)
  show "wellFormed env (snd (processDueMessages env w))"
    and "advances w (snd (processDueMessages env w))"
    unfolding e using wellFormed_processDueLoop [OF wf1 d li] ad1
    by (auto intro: advances_trans)
qed

lemma wellFormed_cancelMessage:
  assumes wf: "wellFormed env w"
  shows "wellFormed env (snd (cancelMessage i w))" and "advances w (snd (cancelMessage i w))"
proof -
  have "wellFormed env (snd (cancelMessage i w)) \<and> advances w (snd (cancelMessage i w))"
  proof (cases "find (\<lambda>m. message_id m = i) (getMessages w)")
    case None
    then show ?thesis using wf by (simp add: cancelMessage_def)
  next
    case (Some msg)
    then have id: "message_id msg = i" by (auto simp: find_Some_iff)
    show ?thesis
    proof (cases "status msg = Scheduled")
      case False
      then show ?thesis using wf Some by (simp add: cancelMessage_def)
    next
      case True
      have st: "statusOf w i = Some Scheduled"
        using Some True by (simp add: statusOf_def lookupMessage_def)
      have "wellFormed env (updateMessage i (noUpdates\<lparr>upd_status := Some Cancelled\<rparr>) w)"
        "advances w (updateMessage i (noUpdates\<lparr>upd_status := Some Cancelled\<rparr>) w)"
        by (rule wellFormed_guarded_update [OF wf]; simp add: st)+
      then show ?thesis using Some True id by (simp add: cancelMessage_def)
    qed
  qed
  then show "wellFormed env (snd (cancelMessage i w))" and "advances w (snd (cancelMessage i w))"
    by simp_all
qed

lemma find_map_same_id:
  fixes g :: "ScheduledMessage \<Rightarrow> ScheduledMessage"
  assumes "\<And>x. message_id (g x) = message_id x"
  shows "find (\<lambda>m. message_id m = j) (map g xs) = map_option g (find (\<lambda>m. message_id m = j) xs)"
  by (induction xs) (simp_all add: assms)

lemma wellFormed_removeContact:
  assumes wf: "wellFormed env w"
  shows "wellFormed env (snd (removeContact c w))" and "advances w (snd (removeContact c w))"
proof -
  define g :: "ScheduledMessage \<Rightarrow> ScheduledMessage"
    where "g = (\<lambda>m. if contactId m = c \<and> status m = Scheduled
                     then m\<lparr>status := Cancelled\<rparr> else m)"
  define w' where "w' = snd (removeContact c w)"
  have gid: "message_id (g x) = message_id x" for x by (simp add: g_def)
  have ms: "getMessages w' = getMessages w \<or> getMessages w' = map g (getMessages w)"
    by (simp add: w'_def getMessages_removeContact g_def)
  have tk: "tick w' = tick w" "timers w' = timers w"
    by (simp_all add: w'_def removeContact_def saveData_def loadData_def Let_def split: option.splits)
  have fw: "forward (status x) (status (g x))" for x by (simp add: g_def)
  have keep: "status (g x) = status x" if "status x = Sent \<or> status x = Delivered" for x
    using that by (auto simp: g_def)
  have st: "statusOf w' j = statusOf w j \<or> statusOf w' j = map_option (status \<circ> g) (lookupMessage w j)" for j
    using ms by (auto simp: statusOf_def lookupMessage_def find_map_same_id [of g, OF gid] option.map_comp)
  have ids: "map message_id (getMessages w') = map message_id (getMessages w)"
    using ms gid by auto
  then have ids': "message_id ` set (getMessages w') = message_id ` set (getMessages w)"
    by (metis set_map)
  have t: "statusOf w' i = statusOf w i" if "statusOf w i = Some Sent \<or> statusOf w i = Some Delivered" for i
    using st [of i] that keep by (auto simp: statusOf_def)
  have "wellFormed env w'"
    using wf t unfolding wellFormed_def ids ids' tk by auto
  moreover have "\<exists>s'. statusOf w' i = Some s' \<and> forward s s'" if h: "statusOf w i = Some s" for i s
  proof -
    obtain z where z: "lookupMessage w i = Some z" "status z = s"
      using h by (auto simp: statusOf_def)
    have "statusOf w' i = Some s \<or> statusOf w' i = Some (status (g z))"
      using st [of i] h z by auto
    then show ?thesis using fw [of z] z(2) by auto
  qed
  then have "advances w w'" unfolding advances_def tk by simp
  ultimately show "wellFormed env (snd (removeContact c w))"
    and "advances w (snd (removeContact c w))"
    by (simp_all add: w'_def)
qed

lemma wellFormed_deleteContact:
  assumes "wellFormed env w"
  shows "wellFormed env (snd (deleteContact c w))" and "advances w (snd (deleteContact c w))"
proof -
  have "snd (deleteContact c w) = snd (removeContact c w)"
    by (simp add: deleteContact_def split: prod.splits bool.splits)
  then show "wellFormed env (snd (deleteContact c w))" and "advances w (snd (deleteContact c w))"
    using wellFormed_removeContact [OF assms] by simp_all
qed

lemma wellFormed_deliveredUpdate:
  assumes wf: "wellFormed env w"
  shows "wellFormed env (exec env (DeliveredUpdate k) w)"
    and "advances w (exec env (DeliveredUpdate k) w)"
proof -
  have "wellFormed env (exec env (DeliveredUpdate k) w) \<and> advances w (exec env (DeliveredUpdate k) w)"
  proof (cases "k < length (timers w)")
    case False
    then show ?thesis using wf by simp
  next
    case True
    define i where "i = timers w ! k"
    define w0 where "w0 = w\<lparr>timers := take k (timers w) @ drop (Suc k) (timers w)\<rparr>"
    define w1 where "w1 = w0\<lparr>tick := Suc (tick w0)\<rparr>"
    define u where "u = noUpdates\<lparr>upd_status := Some Delivered,
                          upd_deliveredAt := Some (Some (toISOString (clock env (tick w0))))\<rparr>"
    have "i \<in> set (timers w)" using True by (simp add: i_def)
    then have st: "statusOf w i = Some Sent \<or> statusOf w i = Some Delivered"
      using wf unfolding wellFormed_def by blast
    have wf0: "wellFormed env w0" unfolding w0_def by (rule wellFormed_drop_timer [OF wf])
    have wf1: "wellFormed env w1" and ad1: "advances w0 w1"
      unfolding w1_def by (rule wellFormed_tick [OF wf0]; simp)+
    have ad0: "advances w w0" by (simp add: advances_def w0_def)
    have "wellFormed env (updateMessage i u w1)" "advances w1 (updateMessage i u w1)"
      using st
      by (intro wellFormed_guarded_update [OF wf1, of u Delivered]; auto simp: u_def w1_def w0_def)+
    moreover have "exec env (DeliveredUpdate k) w = updateMessage i u w1"
      using True by (simp add: deliveredUpdate_def newDate_def i_def u_def w1_def w0_def)
    ultimately show ?thesis using ad0 ad1 by (auto intro: advances_trans)
  qed
  then show "wellFormed env (exec env (DeliveredUpdate k) w)"
    and "advances w (exec env (DeliveredUpdate k) w)"
    by simp_all
qed

lemma wellFormed_scheduleAllLoop:
  assumes "wellFormed env w"
  shows "wellFormed env (snd (scheduleAllLoop env cs acc w))
         \<and> advances w (snd (scheduleAllLoop env cs acc w))"
  using assms
proof (induction cs arbitrary: acc w)
  case Nil
  then show ?case by simp
next
  case (Cons contact rest)
  obtain r w1 where r: "scheduleMessagesForContact env (contact_id contact) w = (r, w1)"
    by (cases "scheduleMessagesForContact env (contact_id contact) w")
  have w1: "wellFormed env w1" "advances w w1"
    using wellFormed_scheduleMessagesForContact(1,2) [OF Cons.prems, of "contact_id contact"] r
    by simp_all
  show ?case
    using Cons.IH [OF w1(1)] w1 r
    by (auto split: completion.splits option.splits intro: advances_trans)
qed

lemma wellFormed_sendNow:
  assumes wf: "wellFormed env w"
  shows "wellFormed env (snd (sendNow env s cId bp w))"
    and "advances w (snd (sendNow env s cId bp w))"
proof -
  define wend where "wend = snd (sendNow env s cId bp w)"
  have "wellFormed env wend \<and> advances w wend"
  proof (cases "cId \<noteq> [] \<and> find (\<lambda>x. contact_id x = cId) (getContacts w) \<noteq> None")
    case False
    then show ?thesis using wf by (auto simp: wend_def sendNow_def)
  next
    case True
    then obtain contact where contact: "find (\<lambda>x. contact_id x = cId) (getContacts w) = Some contact"
      by auto
    obtain body w1 where b: "(case whenTruthy bp of Some given \<Rightarrow> (given, w)
        | None \<Rightarrow> generateBirthdayMessage env (contact_name contact) w) = (body, w1)"
      by (cases "(case whenTruthy bp of Some given \<Rightarrow> (given, w)
        | None \<Rightarrow> generateBirthdayMessage env (contact_name contact) w)")
    have "w1 = w \<or> w1 = w\<lparr>tick := Suc (tick w)\<rparr>"
      using b by (auto simp: generateBirthdayMessage_def randomBelow_def Let_def split: option.splits)
    then have wf1: "wellFormed env w1" and ad1: "advances w w1"
      using wf wellFormed_tick [OF wf, of "Suc (tick w)"] by auto
    define rec where "rec = \<lparr>message_id = uuid env (tick w1),
                         contactId = contact_id contact,
                         contactName = contact_name contact,
                         phone = contact_phone contact,
                         messageBody = body,
                         scheduledFor = toISOString (clock env (Suc (tick w1))),
                         status = Sending,
                         notificationSid = None,
                         errorMessage = None,
                         sentAt = None,
                         deliveredAt = None,
                         createdAt = toISOString (clock env (Suc (Suc (tick w1)))),
                         year = getFullYear (localTZA env) (clock env (Suc (Suc (Suc (tick w1)))))\<rparr>"
    define i where "i = message_id rec"
    have irec: "message_id rec = uuid env (tick w1)" by (simp add: rec_def)
    define w6 where "w6 = addMessage rec (w1\<lparr>tick := Suc (Suc (Suc (Suc (tick w1))))\<rparr>)"
    have wf6: "wellFormed env w6" and ad6: "advances w1 w6"
      and s6: "statusOf w6 i = Some Sending"
      unfolding w6_def i_def
      using wellFormed_append [OF wf1 irec, of "Suc (Suc (Suc (Suc (tick w1))))"]
      by (simp_all add: rec_def)
    obtain result w7 where send: "sendBirthdaySms env (getSessionClient s w6) s (contact_id contact)
        (contact_phone contact) body w6 = (result, w7)"
      by (cases "sendBirthdaySms env (getSessionClient s w6) s (contact_id contact)
        (contact_phone contact) body w6")
    have wf7: "wellFormed env w7" and ad7: "advances w6 w7"
      by (rule wellFormed_cong [OF wf6 sendBirthdaySms_frame(1) [OF send]
            sendBirthdaySms_frame(3) [OF send] tick_sendBirthdaySms [OF send]])+
    have s7: "statusOf w7 i = Some Sending"
      using statusOf_sendBirthdaySms [OF send] s6 by simp
    have ad: "advances w w7" using ad1 ad6 ad7 by (blast intro: advances_trans)
    define uS where "uS = noUpdates\<lparr>upd_status := Some Sent,
                                  upd_notificationSid := Some (resultSid result),
                                  upd_sentAt := Some (Some (toISOString (clock env (tick w7))))\<rparr>"
    define uF where "uF = noUpdates\<lparr>upd_status := Some Failed, upd_errorMessage := Some (error result)\<rparr>"
    have e: "wend = (if success result
                     then setTimeoutDelivered i (updateMessage i uS (w7\<lparr>tick := Suc (tick w7)\<rparr>))
                     else updateMessage i uF w7)"
      unfolding wend_def using True contact b send
      by (simp add: sendNow_def Let_def uuidv4_def newDate_def rec_def [symmetric]
          w6_def [symmetric] i_def uS_def uF_def)
    show ?thesis
    proof (cases "success result")
      case False
      have "wellFormed env (updateMessage i uF w7)" "advances w7 (updateMessage i uF w7)"
        by (rule wellFormed_guarded_update [OF wf7, of uF Failed]; simp add: uF_def s7)+
      then show ?thesis unfolding e using False ad by (auto intro: advances_trans)
    next
      case ok: True
      define w8 where "w8 = w7\<lparr>tick := Suc (tick w7)\<rparr>"
      have wf8: "wellFormed env w8" and ad8: "advances w7 w8"
        unfolding w8_def by (rule wellFormed_tick [OF wf7]; simp)+
      have wf9: "wellFormed env (updateMessage i uS w8)" and ad9: "advances w8 (updateMessage i uS w8)"
        by (rule wellFormed_guarded_update [OF wf8, of uS Sent]; simp add: uS_def w8_def s7)+
      have s9: "statusOf (updateMessage i uS w8) i = Some Sent"
        by (simp add: statusOf_updateMessage w8_def s7 uS_def)
      have wf10: "wellFormed env (setTimeoutDelivered i (updateMessage i uS w8))"
        by (rule wellFormed_setTimeout [OF wf9 s9])
      have "advances (updateMessage i uS w8) (setTimeoutDelivered i (updateMessage i uS w8))"
        by (simp add: advances_def)
      then have "advances w (setTimeoutDelivered i (updateMessage i uS w8))"
        using ad ad8 ad9 by (blast intro: advances_trans)
      then show ?thesis unfolding e using ok wf10 by (simp add: w8_def)
    qed
  qed
  then show "wellFormed env (snd (sendNow env s cId bp w))"
    and "advances w (snd (sendNow env s cId bp w))"
    by (simp_all add: wend_def)
qed

lemma wellFormed_exec:
  assumes wf: "wellFormed env w"
  shows "wellFormed env (exec env op w) \<and> advances w (exec env op w)"
proof (cases op)
  case (EnsureScheduled c)
  then show ?thesis using wellFormed_scheduleMessagesForContact(1,2) [OF wf] by simp
next
  case ScheduleAll
  then show ?thesis using wellFormed_scheduleAllLoop [OF wf] by (simp add: scheduleAllContacts_def)
next
  case DispatchCycle
  then show ?thesis using wellFormed_processDueMessages [OF wf] by simp
next
  case (CancelMessage i)
  then show ?thesis using wellFormed_cancelMessage [OF wf] by simp
next
  case (DeleteContact i)
  then show ?thesis using wellFormed_deleteContact [OF wf] by simp
next
  case (SendNow s c bp)
  then show ?thesis using wellFormed_sendNow [OF wf] by simp
next
  case (DeliveredUpdate k)
  then show ?thesis using wellFormed_deliveredUpdate [OF wf] by simp
qed

lemma wellFormed_run:
  assumes "wellFormed env w"
  shows "wellFormed env (run env ops w) \<and> advances w (run env ops w)"
  using assms
proof (induction ops arbitrary: w)
  case Nil
  then show ?case by simp
next
  case (Cons op ops)
  have "wellFormed env (exec env op w)" "advances w (exec env op w)"
    using wellFormed_exec [OF Cons.prems] by simp_all
  then show ?case using Cons.IH [of "exec env op w"] by (auto intro: advances_trans)
qed

lemma wellFormed_update_untimed:
  assumes wf: "wellFormed env w" and i: "i \<notin> set (timers w)"
  shows "wellFormed env (updateMessage i u w)"
proof -
  have "statusOf (updateMessage i u w) j = statusOf w j" if "j \<in> set (timers w)" for j
    using that i by (auto simp: statusOf_updateMessage)
  then show ?thesis
    using wf unfolding wellFormed_def by (simp add: map_ids_updateMessage ids_updateMessage)
qed

text \<open>
  The loop tests the status held by the list that was read when the cycle started, not the
  one in the store. When the two differ, which takes a write landing while the cycle waits
  for an earlier send, the store's status is overwritten: a message that the store holds as
  cancelled is sent all the same.
\<close>

lemma processDueBody_stale_snapshot:
  assumes wf: "wellFormed env w"
    and due: "isDue now msg"
    and st: "statusOf w (message_id msg) = Some Cancelled"
  shows "statusOf (snd (processDueBody env b now msg w)) (message_id msg) = Some Sent
         \<or> statusOf (snd (processDueBody env b now msg w)) (message_id msg) = Some Failed"
proof -
  define i where "i = message_id msg"
  have nt: "i \<notin> set (timers w)"
    using wf st unfolding wellFormed_def i_def by auto
  define w1 where "w1 = updateMessage i (noUpdates\<lparr>upd_status := Some Sending\<rparr>) w"
  have wf1: "wellFormed env w1"
    unfolding w1_def by (rule wellFormed_update_untimed [OF wf nt])
  have s1: "statusOf w1 i = Some Sending"
    using st by (simp add: w1_def statusOf_updateMessage i_def)
  obtain result w2 where send: "sendBirthdaySms env b ''scheduler'' (contactId msg) (phone msg)
      (messageBody msg) w1 = (result, w2)"
    by (cases "sendBirthdaySms env b ''scheduler'' (contactId msg) (phone msg) (messageBody msg) w1")
  have wf2: "wellFormed env w2"
    by (rule wellFormed_cong [OF wf1 sendBirthdaySms_frame(1) [OF send]
          sendBirthdaySms_frame(3) [OF send] tick_sendBirthdaySms [OF send]])
  have s2: "statusOf w2 i = Some Sending"
    using statusOf_sendBirthdaySms [OF send] s1 by simp
  show ?thesis
  proof (cases "success result")
    case False
    have "statusOf (snd (processDueBody env b now msg w)) i = Some Failed"
      unfolding processDueBody_failure [OF due send [unfolded w1_def i_def] False]
      by (simp add: statusOf_updateMessage i_def [symmetric] s2)
    then show ?thesis by (simp add: i_def)
  next
    case True
    define uS where "uS = noUpdates\<lparr>upd_status := Some Sent,
                                  upd_notificationSid := Some (resultSid result),
                                  upd_sentAt := Some (Some (toISOString (clock env (tick w2))))\<rparr>"
    define w3 where "w3 = w2\<lparr>tick := Suc (tick w2)\<rparr>"
    define w5 where "w5 = setTimeoutDelivered i (updateMessage i uS w3)"
    have wf3: "wellFormed env w3"
      unfolding w3_def by (rule wellFormed_tick [OF wf2]) simp
    have wf4: "wellFormed env (updateMessage i uS w3)"
      by (rule wellFormed_guarded_update [OF wf3, of uS Sent]; simp add: uS_def w3_def s2)
    have s4: "statusOf (updateMessage i uS w3) i = Some Sent"
      by (simp add: statusOf_updateMessage w3_def s2 uS_def)
    have wf5: "wellFormed env w5"
      unfolding w5_def by (rule wellFormed_setTimeout [OF wf4 s4])
    have s5: "statusOf w5 i = Some Sent"
      using s4 by (simp add: w5_def)
    have keep: "statusOf (snd (scheduleMessagesForContact env c w5)) i = Some Sent" for c
      using wellFormed_scheduleMessagesForContact(3) [OF wf5, of c] s5 by simp
    have "statusOf (snd (processDueBody env b now msg w)) i = Some Sent"
      unfolding processDueBody_success [OF due send [unfolded w1_def i_def] True]
      using s5 keep
      by (auto simp: w5_def w3_def uS_def i_def snd_rethrow split: option.splits)
    then show ?thesis by (simp add: i_def)
  qed
qed

text \<open>
  When every operation runs to its end before the next starts, a status that is \<open>Sent\<close>,
  \<open>Delivered\<close>, \<open>Failed\<close> or \<open>Cancelled\<close> stays as it is, or goes from \<open>Sent\<close> to
  \<open>Delivered\<close>.
\<close>

lemma sequential_settled_status_stays:
  assumes "wellFormed env w"
    and "statusOf w i = Some s"
    and "s = Sent \<or> s = Delivered \<or> s = Failed \<or> s = Cancelled"
  shows "\<exists>s'. statusOf (run env ops w) i = Some s' \<and> (s' = s \<or> (s = Sent \<and> s' = Delivered))"
proof -
  have "advances w (run env ops w)" using wellFormed_run [OF assms(1)] by simp
  then obtain s' where "statusOf (run env ops w) i = Some s'" "forward s s'"
    using assms(2) unfolding advances_def by blast
  then show ?thesis using forward_settled [OF _ assms(3)] by blast
qed

subsection \<open>A cycle that waits while another operation lands\<close>

text \<open>The body of the atomic loop is the first half of the cut loop followed by the second.\<close>

lemma processDueBody_settle:
  assumes "isDue now msg"
    and "sendBirthdaySms env b ''scheduler'' (contactId msg) (phone msg) (messageBody msg)
           (updateMessage (message_id msg) (noUpdates\<lparr>upd_status := Some Sending\<rparr>) w) = (result, w2)"
  shows "processDueBody env b now msg w = settleSend env msg result w2"
  using assms sendBirthdaySms_frame(2) [OF assms(2)]
  by (simp add: processDueBody_def settleSend_def newDate_def Let_def)

lemma advanceCycle_skip:
  "\<not> isDue now msg \<Longrightarrow> advanceCycle env b now (msg # rest) w = advanceCycle env b now rest w"
  by (auto simp: isDue_def split: option.splits)

lemma advanceCycle_due:
  assumes "isDue now msg"
    and "sendBirthdaySms env b ''scheduler'' (contactId msg) (phone msg) (messageBody msg)
           (updateMessage (message_id msg) (noUpdates\<lparr>upd_status := Some Sending\<rparr>) w) = (result, w2)"
  shows "advanceCycle env b now (msg # rest) w =
           (if b \<noteq> None \<and> tick w < tick w2
            then (Awaiting \<lparr>pendingBundle = b, pendingNow = now, pendingMsg = msg,
                            pendingResult = result, pendingRest = rest\<rparr>, w2)
            else (case settleSend env msg result w2 of
                    (Threw e, w3) \<Rightarrow> (Finished (Threw e), w3)
                  | (Returned u, w3) \<Rightarrow> advanceCycle env b now rest w3))"
  using assms by (auto simp: isDue_def split: option.splits)

text \<open>
  When every send settles before anything else runs, the cut loop is the loop of
  \<open>processDueMessages\<close>.
\<close>

lemma processDueLoop_advanceCycle:
  "processDueLoop env b now msgs w =
     (case advanceCycle env b now msgs w of
        (Finished r, w1) \<Rightarrow> (r, w1)
      | (Awaiting p, w1) \<Rightarrow>
          (case settleSend env (pendingMsg p) (pendingResult p) w1 of
             (Threw e, w2) \<Rightarrow> (Threw e, w2)
           | (Returned u, w2) \<Rightarrow> processDueLoop env b now (pendingRest p) w2))"
proof (induction msgs arbitrary: w)
  case Nil
  then show ?case by simp
next
  case (Cons msg rest)
  show ?case
  proof (cases "isDue now msg")
    case False
    then show ?thesis
      unfolding processDueLoop_Cons advanceCycle_skip [OF False]
      using Cons.IH [of w] by (simp add: processDueBody_not_due)
  next
    case True
    obtain result w2 where send: "sendBirthdaySms env b ''scheduler'' (contactId msg) (phone msg)
        (messageBody msg) (updateMessage (message_id msg) (noUpdates\<lparr>upd_status := Some Sending\<rparr>) w)
          = (result, w2)"
      by (cases "sendBirthdaySms env b ''scheduler'' (contactId msg) (phone msg) (messageBody msg)
        (updateMessage (message_id msg) (noUpdates\<lparr>upd_status := Some Sending\<rparr>) w)")
    have body: "processDueBody env b now msg w = settleSend env msg result w2"
      by (rule processDueBody_settle [OF True send])
    obtain r w3 where settle: "settleSend env msg result w2 = (r, w3)"
      by (cases "settleSend env msg result w2")
    show ?thesis
      unfolding processDueLoop_Cons body advanceCycle_due [OF True send] settle
      using Cons.IH [of w3] by (cases r) (simp_all add: settle)
  qed
qed

text \<open>The second half of the loop body, for a message that the store holds as sending.\<close>

lemma settleSend_sending:
  assumes wf: "wellFormed env w"
    and s: "statusOf w (message_id msg) = Some Sending"
  shows "wellFormed env (snd (settleSend env msg result w))"
    and "statusOf (snd (settleSend env msg result w)) (message_id msg)
           = Some (if success result then Sent else Failed)"
    and "\<forall>j st. j \<noteq> message_id msg \<longrightarrow> statusOf w j = Some st
           \<longrightarrow> statusOf (snd (settleSend env msg result w)) j = Some st"
    and "tick w \<le> tick (snd (settleSend env msg result w))"
proof -
  define i where "i = message_id msg"
  define w' where "w' = snd (settleSend env msg result w)"
  have "wellFormed env w' \<and> statusOf w' i = Some (if success result then Sent else Failed)
        \<and> (\<forall>j st. j \<noteq> i \<longrightarrow> statusOf w j = Some st \<longrightarrow> statusOf w' j = Some st)
        \<and> tick w \<le> tick w'"
  proof (cases "success result")
    case False
    define u where "u = noUpdates\<lparr>upd_status := Some Failed, upd_errorMessage := Some (error result)\<rparr>"
    have e: "w' = updateMessage i u w"
      using False by (simp add: w'_def settleSend_def u_def i_def)
    have "wellFormed env (updateMessage i u w)"
      by (rule wellFormed_guarded_update [OF wf, of u Failed]; simp add: u_def s [folded i_def])
    then show ?thesis
      unfolding e using False s [folded i_def] by (simp add: statusOf_updateMessage u_def)
  next
    case ok: True
    define u where "u = noUpdates\<lparr>upd_status := Some Sent,
                                upd_notificationSid := Some (resultSid result),
                                upd_sentAt := Some (Some (toISOString (clock env (tick w))))\<rparr>"
    define w3 where "w3 = w\<lparr>tick := Suc (tick w)\<rparr>"
    define w4 where "w4 = updateMessage i u w3"
    define w5 where "w5 = setTimeoutDelivered i w4"
    have wf3: "wellFormed env w3"
      unfolding w3_def by (rule wellFormed_tick [OF wf]) simp
    have wf4: "wellFormed env w4"
      unfolding w4_def
      by (rule wellFormed_guarded_update [OF wf3, of u Sent]; simp add: u_def w3_def s [folded i_def])
    have s4: "statusOf w4 j = (if j = i then Some Sent else statusOf w j)" for j
      by (simp add: w4_def statusOf_updateMessage w3_def s [folded i_def] u_def)
    have wf5: "wellFormed env w5"
      unfolding w5_def by (rule wellFormed_setTimeout [OF wf4]) (simp add: s4)
    have s5: "statusOf w5 j = (if j = i then Some Sent else statusOf w j)" for j
      by (simp add: w5_def s4)
    have t5: "tick w \<le> tick w5" by (simp add: w5_def w4_def w3_def)
    have e: "w' = w5 \<or> (\<exists>c. w' = snd (scheduleMessagesForContact env c w5))"
      using ok unfolding w'_def settleSend_def w5_def w4_def w3_def u_def i_def
      by (auto simp: newDate_def Let_def snd_rethrow split: option.splits)
    show ?thesis
    proof (rule disjE [OF e])
      assume "w' = w5"
      then show ?thesis using wf5 s5 ok t5 by simp
    next
      assume "\<exists>c. w' = snd (scheduleMessagesForContact env c w5)"
      then obtain c where c: "w' = snd (scheduleMessagesForContact env c w5)" ..
      have "tick w5 \<le> tick w'"
        unfolding c using wellFormed_scheduleMessagesForContact(2) [OF wf5, of c]
        by (simp add: advances_def)
      then show ?thesis
        unfolding c using wellFormed_scheduleMessagesForContact(1,3) [OF wf5, of c] s5 ok t5
        unfolding c [symmetric] by auto
    qed
  qed
  then show "wellFormed env (snd (settleSend env msg result w))"
    and "statusOf (snd (settleSend env msg result w)) (message_id msg)
           = Some (if success result then Sent else Failed)"
    and "\<forall>j st. j \<noteq> message_id msg \<longrightarrow> statusOf w j = Some st
           \<longrightarrow> statusOf (snd (settleSend env msg result w)) j = Some st"
    and "tick w \<le> tick (snd (settleSend env msg result w))"
    by (simp_all add: w'_def i_def)
qed

text \<open>A send through the example bundle calls the provider once.\<close>

lemma sendBirthdaySms_exampleBundle_calls:
  assumes "sendBirthdaySms env (Some exampleBundle) s c p body w = (result, w2)"
  shows "tick w2 = Suc (tick w)"
    and "createNotification env (tick w) = NotificationResult sid \<Longrightarrow> success result"
  using assms
  by (auto simp: sendBirthdaySms_def ensureNotifyService_def exampleBundle_def whenTruthy_def
      rememberServiceSid_def Let_def
      split: option.splits if_splits NotificationResponse.splits)

lemma raceWorld_simps [simp]:
  "getContacts raceWorld = [exampleContact ''03-15'', secondContact]"
  "getMessages raceWorld = [exampleMessage ''m1'' ''c1'' Scheduled, secondMessage Scheduled]"
  "activeClients raceWorld = [(''s1'', exampleBundle)]"
  "timers raceWorld = []"
  "tick raceWorld = 0"
  by (simp_all add: raceWorld_def getContacts_def getMessages_def loadData_def)

lemma secondMessage_simps [simp]:
  "message_id (secondMessage st) = ''m2''"
  "contactId (secondMessage st) = ''c2''"
  "status (secondMessage st) = st"
  by (simp_all add: secondMessage_def)

lemma secondMessage_due: "isDue 1710493260000 (secondMessage Scheduled)"
  by (simp add: isDue_def secondMessage_def parse_fire_2024)

lemma raceEnv_simps [simp]:
  "localTZA raceEnv = fixedOffset 0"
  "clock raceEnv k = 1710493260000 + 1000 * int k"
  "createNotification raceEnv k = NotificationResult (Some ''NT1'')"
  by (simp_all add: raceEnv_def)

lemma wellFormed_raceWorld: "wellFormed raceEnv raceWorld"
  by (simp add: wellFormed_def raceEnv_def)

lemma statusOf_raceWorld [simp]:
  "statusOf raceWorld ''m1'' = Some Scheduled"
  "statusOf raceWorld ''m2'' = Some Scheduled"
  by (simp_all add: statusOf_def lookupMessage_def)

text \<open>The second half of the loop body returns when the next birthday is a valid date.\<close>

lemma settleSend_returns:
  assumes "success result"
    and c: "find (\<lambda>c. contact_id c = contactId msg) (getContacts w) = Some contact"
    and nb: "getNextBirthdayDate (localTZA env) (birthday contact) (clock env (Suc (tick w))) = Some nb"
  shows "fst (settleSend env msg result w) = Returned ()"
proof -
  define w5 where "w5 = setTimeoutDelivered (message_id msg)
                          (updateMessage (message_id msg)
                             (noUpdates\<lparr>upd_status := Some Sent,
                                        upd_notificationSid := Some (resultSid result),
                                        upd_sentAt := Some (Some (toISOString (clock env (tick w))))\<rparr>)
                             (w\<lparr>tick := Suc (tick w)\<rparr>))"
  have c5: "find (\<lambda>c. contact_id c = contactId msg) (getContacts w5) = Some contact"
    using c by (simp add: w5_def)
  have id: "contact_id contact = contactId msg" using c by (auto simp: find_Some_iff)
  have nb5: "getNextBirthdayDate (localTZA env) (birthday contact) (clock env (tick w5)) = Some nb"
    using nb by (simp add: w5_def)
  obtain w' m where "scheduleMessagesForContact env (contactId msg) w5 = (Returned (Some m), w')"
    using scheduleMessagesForContact_ensures [OF c5 nb5] by blast
  then show ?thesis
    using assms(1) c id unfolding w5_def
    by (simp add: settleSend_def newDate_def Let_def)
qed

lemma snd_resumeCycle_last:
  "pendingRest p = [] \<Longrightarrow>
     snd (resumeCycle env p w) = snd (settleSend env (pendingMsg p) (pendingResult p) w)"
  by (simp add: resumeCycle_def split: prod.splits completion.splits)

lemma cancelMessage_scheduled:
  assumes "statusOf w i = Some Scheduled"
  shows "snd (cancelMessage i w) = updateMessage i (noUpdates\<lparr>upd_status := Some Cancelled\<rparr>) w"
proof -
  obtain m where f: "find (\<lambda>m. message_id m = i) (getMessages w) = Some m"
    and s: "status m = Scheduled"
    using assms by (auto simp: statusOf_def lookupMessage_def)
  have "message_id m = i" using f by (auto simp: find_Some_iff)
  then show ?thesis by (simp add: cancelMessage_def f s)
qed

lemma snd_fire_resume:
  "snd (fireEvent env (CycleResumes 0) ([p], w)) = snd (resumeCycle env p w)"
  by (simp split: prod.splits CycleState.splits)

text \<open>
  The scheduler starts a cycle over two due messages. While the cycle waits for the send of
  the first, the second is cancelled. The cycle then goes on with the entry it read at its
  start, where the second message is scheduled.
\<close>

lemma race_trace:
  shows "\<exists>p w. fireEvents raceEnv [CycleStarts] ([], raceWorld) = ([p], w)
           \<and> statusOf w ''m2'' = Some Scheduled"
    and "statusOf (snd (fireEvents raceEnv [CycleStarts, Lands (CancelMessage ''m2'')]
           ([], raceWorld))) ''m2'' = Some Cancelled"
    and "statusOf (snd (fireEvents raceEnv [CycleStarts, Lands (CancelMessage ''m2''), CycleResumes 0]
           ([], raceWorld))) ''m2'' = Some Sending"
    and "statusOf (snd (fireEvents raceEnv
           [CycleStarts, Lands (CancelMessage ''m2''), CycleResumes 0, CycleResumes 0]
           ([], raceWorld))) ''m2'' = Some Sent"
proof -
  define b where "b = Some exampleBundle"
  define now :: int where "now = 1710493260000"
  define M1 where "M1 = exampleMessage ''m1'' ''c1'' Scheduled"
  define M2 where "M2 = secondMessage Scheduled"
  define W1 where "W1 = raceWorld\<lparr>tick := Suc 0\<rparr>"
  define sending where "sending = noUpdates\<lparr>upd_status := Some Sending\<rparr>"
  have id [simp]: "message_id M1 = ''m1''" "message_id M2 = ''m2''" "contactId M1 = ''c1''"
    by (simp_all add: M1_def M2_def)
  have due: "isDue now M1" "isDue now M2"
    by (simp_all add: now_def M1_def M2_def exampleMessage_due secondMessage_due)
  have start: "startCycle raceEnv raceWorld = advanceCycle raceEnv b now [M1, M2] W1"
    by (simp add: startCycle_def newDate_def Let_def getFirstActiveClient_def W1_def M1_def
        M2_def b_def now_def)
  have wfW1: "wellFormed raceEnv W1"
    unfolding W1_def by (rule wellFormed_tick [OF wellFormed_raceWorld]) simp
  \<comment> \<open>the first send\<close>
  define U1 where "U1 = updateMessage ''m1'' sending W1"
  obtain r1 w1 where send1: "sendBirthdaySms raceEnv b ''scheduler'' (contactId M1) (phone M1)
      (messageBody M1) (updateMessage (message_id M1) (noUpdates\<lparr>upd_status := Some Sending\<rparr>) W1)
        = (r1, w1)"
    by (cases "sendBirthdaySms raceEnv b ''scheduler'' (contactId M1) (phone M1)
      (messageBody M1) (updateMessage (message_id M1) (noUpdates\<lparr>upd_status := Some Sending\<rparr>) W1)")
  note send1' = send1 [unfolded id, folded sending_def, folded U1_def]
  have wfU1: "wellFormed raceEnv U1"
    unfolding U1_def
    by (rule wellFormed_guarded_update [OF wfW1, of sending Sending])
      (simp_all add: sending_def W1_def)
  have wf1: "wellFormed raceEnv w1"
    by (rule wellFormed_cong [OF wfU1 sendBirthdaySms_frame(1) [OF send1']
          sendBirthdaySms_frame(3) [OF send1'] tick_sendBirthdaySms [OF send1']])
  have t1: "tick w1 = Suc (Suc 0)" and ok1: "success r1"
    using sendBirthdaySms_exampleBundle_calls [OF send1' [unfolded b_def]]
    by (simp_all add: U1_def W1_def)
  have s1: "statusOf w1 j = (if j = ''m1'' then Some Sending else statusOf raceWorld j)" for j
    unfolding statusOf_sendBirthdaySms [OF send1']
    by (simp add: U1_def statusOf_updateMessage sending_def W1_def)
  have c1: "getContacts w1 = getContacts raceWorld"
    unfolding sendBirthdaySms_frame(2) [OF send1'] by (simp add: U1_def W1_def)
  define p1 where "p1 = \<lparr>pendingBundle = b, pendingNow = now, pendingMsg = M1,
                          pendingResult = r1, pendingRest = [M2]\<rparr>"
  have adv1: "advanceCycle raceEnv b now [M1, M2] W1 = (Awaiting p1, w1)"
    unfolding advanceCycle_due [OF due(1) send1] p1_def
    by (simp add: b_def t1 W1_def)
  have f1: "fireEvents raceEnv [CycleStarts] ([], raceWorld) = ([p1], w1)"
    by (simp add: start adv1 del: advanceCycle.simps)
  show "\<exists>p w. fireEvents raceEnv [CycleStarts] ([], raceWorld) = ([p], w)
           \<and> statusOf w ''m2'' = Some Scheduled"
    unfolding f1 by (simp add: s1)
  \<comment> \<open>the cancellation lands\<close>
  define w2 where "w2 = snd (cancelMessage ''m2'' w1)"
  have w2: "w2 = updateMessage ''m2'' (noUpdates\<lparr>upd_status := Some Cancelled\<rparr>) w1"
    unfolding w2_def by (rule cancelMessage_scheduled) (simp add: s1)
  have wf2: "wellFormed raceEnv w2"
    unfolding w2_def by (rule wellFormed_cancelMessage(1) [OF wf1])
  have s2: "statusOf w2 j = (if j = ''m2'' then Some Cancelled else statusOf w1 j)" for j
    by (simp add: w2 statusOf_updateMessage s1)
  have t2: "tick w2 = Suc (Suc 0)" and c2: "getContacts w2 = getContacts raceWorld"
    by (simp_all add: w2 t1 c1)
  have f2: "fireEvents raceEnv [CycleStarts, Lands (CancelMessage ''m2'')] ([], raceWorld) = ([p1], w2)"
    using f1 by (simp add: w2_def)
  show "statusOf (snd (fireEvents raceEnv [CycleStarts, Lands (CancelMessage ''m2'')]
           ([], raceWorld))) ''m2'' = Some Cancelled"
    unfolding f2 by (simp add: s2)
  \<comment> \<open>the first send settles and the cycle goes on to the second message\<close>
  obtain r3 w3 where settle1: "settleSend raceEnv M1 r1 w2 = (r3, w3)"
    by (cases "settleSend raceEnv M1 r1 w2")
  have sending1: "statusOf w2 (message_id M1) = Some Sending" by (simp add: s2 s1)
  have wf3: "wellFormed raceEnv w3"
    and s3: "statusOf w3 ''m2'' = Some Cancelled"
    using settleSend_sending(1,3) [OF wf2 sending1, of r1] by (simp_all add: settle1 s2)
  have r3: "r3 = Returned ()"
    using settleSend_returns [of r1 M1 w2 "exampleContact ''03-15''" raceEnv 1742029200000] ok1
    by (simp add: settle1 c2 t2 next_after_dispatch)
  have resume1: "resumeCycle raceEnv p1 w2 = advanceCycle raceEnv b now [M2] w3"
    by (simp add: resumeCycle_def p1_def settle1 r3 del: advanceCycle.simps)
  define U3 where "U3 = updateMessage ''m2'' sending w3"
  obtain r2 w4 where send2: "sendBirthdaySms raceEnv b ''scheduler'' (contactId M2) (phone M2)
      (messageBody M2) (updateMessage (message_id M2) (noUpdates\<lparr>upd_status := Some Sending\<rparr>) w3)
        = (r2, w4)"
    by (cases "sendBirthdaySms raceEnv b ''scheduler'' (contactId M2) (phone M2)
      (messageBody M2) (updateMessage (message_id M2) (noUpdates\<lparr>upd_status := Some Sending\<rparr>) w3)")
  note send2' = send2 [unfolded id, folded sending_def, folded U3_def]
  have untimed: "''m2'' \<notin> set (timers w3)"
    using wf3 s3 unfolding wellFormed_def by auto
  have wfU3: "wellFormed raceEnv U3"
    unfolding U3_def by (rule wellFormed_update_untimed [OF wf3 untimed])
  have wf4: "wellFormed raceEnv w4"
    by (rule wellFormed_cong [OF wfU3 sendBirthdaySms_frame(1) [OF send2']
          sendBirthdaySms_frame(3) [OF send2'] tick_sendBirthdaySms [OF send2']])
  have t4: "tick w4 = Suc (tick w3)" and ok2: "success r2"
    using sendBirthdaySms_exampleBundle_calls [OF send2' [unfolded b_def]]
    by (simp_all add: U3_def)
  have s4: "statusOf w4 ''m2'' = Some Sending"
    unfolding statusOf_sendBirthdaySms [OF send2']
    by (simp add: U3_def statusOf_updateMessage sending_def s3)
  define p2 where "p2 = \<lparr>pendingBundle = b, pendingNow = now, pendingMsg = M2,
                          pendingResult = r2, pendingRest = []\<rparr>"
  have adv2: "advanceCycle raceEnv b now [M2] w3 = (Awaiting p2, w4)"
    unfolding advanceCycle_due [OF due(2) send2] p2_def
    by (simp add: b_def t4)
  have f3: "fireEvents raceEnv [CycleStarts, Lands (CancelMessage ''m2''), CycleResumes 0]
              ([], raceWorld) = ([p2], w4)"
    using f2 by (simp add: resume1 adv2 del: advanceCycle.simps)
  show "statusOf (snd (fireEvents raceEnv [CycleStarts, Lands (CancelMessage ''m2''), CycleResumes 0]
           ([], raceWorld))) ''m2'' = Some Sending"
    unfolding f3 by (simp add: s4)
  \<comment> \<open>the second send settles\<close>
  have "fireEvents raceEnv [CycleStarts, Lands (CancelMessage ''m2''), CycleResumes 0, CycleResumes 0]
          ([], raceWorld) = fireEvent raceEnv (CycleResumes 0) ([p2], w4)"
    using f3 by simp
  then have "snd (fireEvents raceEnv
               [CycleStarts, Lands (CancelMessage ''m2''), CycleResumes 0, CycleResumes 0]
               ([], raceWorld)) = snd (settleSend raceEnv M2 r2 w4)"
    by (simp only: snd_fire_resume) (simp add: snd_resumeCycle_last p2_def)
  then show "statusOf (snd (fireEvents raceEnv
           [CycleStarts, Lands (CancelMessage ''m2''), CycleResumes 0, CycleResumes 0]
           ([], raceWorld))) ''m2'' = Some Sent"
    using settleSend_sending(2) [OF wf4, of M2 r2] s4 ok2 by simp
qed

text \<open>
  No (subject, year) pair gets two scheduled messages, whatever lands while a cycle waits:
  every write of the cycle sets a status other than scheduled, or is the search and append
  of \<open>scheduleMessagesForContact\<close>, which runs without a wait.
\<close>

lemma atMostOneScheduled_settleSend:
  assumes "atMostOneScheduled (getMessages w)"
  shows "atMostOneScheduled (getMessages (snd (settleSend env msg result w)))"
proof (cases "success result")
  case False
  then show ?thesis
    using atMostOneScheduled_updateMessage [OF assms] by (simp add: settleSend_def)
next
  case True
  define w5 where "w5 = setTimeoutDelivered (message_id msg)
      (updateMessage (message_id msg)
         (noUpdates\<lparr>upd_status := Some Sent, upd_notificationSid := Some (resultSid result),
            upd_sentAt := Some (Some (toISOString (clock env (tick w))))\<rparr>)
         (w\<lparr>tick := Suc (tick w)\<rparr>))"
  have i5: "atMostOneScheduled (getMessages w5)"
    unfolding w5_def setTimeoutDelivered_def
    using atMostOneScheduled_updateMessage [of "w\<lparr>tick := Suc (tick w)\<rparr>"] assms
    by simp
  have "snd (settleSend env msg result w) = w5
        \<or> (\<exists>c. snd (settleSend env msg result w) = snd (scheduleMessagesForContact env c w5))"
    using True unfolding settleSend_def w5_def
    by (auto simp: newDate_def Let_def snd_rethrow split: option.splits)
  then show ?thesis
    using i5 atMostOneScheduled_scheduleMessagesForContact [OF i5] by auto
qed

lemma atMostOneScheduled_advanceCycle:
  assumes "atMostOneScheduled (getMessages w)"
  shows "atMostOneScheduled (getMessages (snd (advanceCycle env b now msgs w)))"
  using assms
proof (induction msgs arbitrary: w)
  case Nil
  then show ?case by simp
next
  case (Cons msg rest)
  show ?case
  proof (cases "isDue now msg")
    case False
    then show ?thesis
      unfolding advanceCycle_skip [OF False] by (intro Cons.IH Cons.prems)
  next
    case True
    define w1 where "w1 = updateMessage (message_id msg) (noUpdates\<lparr>upd_status := Some Sending\<rparr>) w"
    obtain result w2 where send: "sendBirthdaySms env b ''scheduler'' (contactId msg) (phone msg)
        (messageBody msg) (updateMessage (message_id msg) (noUpdates\<lparr>upd_status := Some Sending\<rparr>) w)
          = (result, w2)"
      by (cases "sendBirthdaySms env b ''scheduler'' (contactId msg) (phone msg) (messageBody msg)
        (updateMessage (message_id msg) (noUpdates\<lparr>upd_status := Some Sending\<rparr>) w)")
    have "atMostOneScheduled (getMessages w1)"
      unfolding w1_def by (rule atMostOneScheduled_updateMessage [OF Cons.prems]) simp
    then have i2: "atMostOneScheduled (getMessages w2)"
      using sendBirthdaySms_frame(1) [OF send] by (simp add: w1_def)
    obtain r w3 where settle: "settleSend env msg result w2 = (r, w3)"
      by (cases "settleSend env msg result w2")
    have i3: "atMostOneScheduled (getMessages w3)"
      using atMostOneScheduled_settleSend [OF i2, of env msg result] by (simp add: settle)
    show ?thesis
      unfolding advanceCycle_due [OF True send] settle
      using i2 i3 Cons.IH [OF i3] by (cases r) simp_all
  qed
qed

lemma atMostOneScheduled_fireEvent:
  assumes "atMostOneScheduled (getMessages (snd s))"
  shows "atMostOneScheduled (getMessages (snd (fireEvent env e s)))"
proof (cases s)
  case (Pair waiting w)
  then have i: "atMostOneScheduled (getMessages w)" using assms by simp
  show ?thesis
  proof (cases e)
    case CycleStarts
    have "atMostOneScheduled (getMessages (snd (startCycle env w)))"
      unfolding startCycle_def newDate_def Let_def
      using atMostOneScheduled_advanceCycle [of "w\<lparr>tick := Suc (tick w)\<rparr>"] i by simp
    then show ?thesis
      unfolding Pair CycleStarts by (auto split: prod.splits CycleState.splits)
  next
    case (CycleResumes k)
    have "atMostOneScheduled (getMessages (snd (resumeCycle env p w)))" for p
    proof -
      obtain r w1 where settle: "settleSend env (pendingMsg p) (pendingResult p) w = (r, w1)"
        by (cases "settleSend env (pendingMsg p) (pendingResult p) w")
      have "atMostOneScheduled (getMessages w1)"
        using atMostOneScheduled_settleSend [OF i, of env "pendingMsg p" "pendingResult p"]
        by (simp add: settle)
      then show ?thesis
        unfolding resumeCycle_def settle
        using atMostOneScheduled_advanceCycle [of w1] by (cases r) simp_all
    qed
    from this [of "waiting ! k"] show ?thesis
      unfolding Pair CycleResumes using i
      by (cases "resumeCycle env (waiting ! k) w") (auto split: CycleState.splits)
  next
    case (Lands op)
    then show ?thesis
      unfolding Pair using atMostOneScheduled_exec [OF i] by simp
  qed
qed

lemma atMostOneScheduled_fireEvents:
  assumes "atMostOneScheduled (getMessages (snd s))"
  shows "atMostOneScheduled (getMessages (snd (fireEvents env es s)))"
  using assms
proof (induction es arbitrary: s)
  case Nil
  then show ?case by simp
next
  case (Cons e es)
  show ?case
    using Cons.IH [OF atMostOneScheduled_fireEvent [OF Cons.prems]] by simp
qed

text \<open>
  C2 (as amended). For a month 1..12 and a day 1..31 and an ordinary reference, in a zone
  whose clock keeps 09:00 of that day in the reference's local year and the next and whose
  offsets differ by at most \<open>v\<close>, where \<open>v\<close> is at most nine hours (no difference in a zone of
  fixed offset, an hour with daylight saving): the next fire instant exists, is strictly after
  the reference, is 09:00:00.000 local time, lies in the reference's local year or the next
  one and at most 366 days and \<open>v\<close> after the reference; it is the 09:00 candidate of the
  reference year when that is strictly after the reference and the candidate of the following
  year otherwise. It falls on the given month and day when that month of the year it falls
  in has such a day; otherwise it falls in the following month, on the day numbered by the
  excess over the length of the given month.
\<close>

theorem getNextBirthdayDate_next_fire:
  assumes "parseMMDD b = Some (month, dd)"
    and "1 \<le> month" "month \<le> 12" "1 \<le> dd" "dd \<le> 31"
    and "ordinaryReference zone ref"
    and "keepsLocalTime zone (nineOClock (getFullYear zone ref) month dd)"
    and "keepsLocalTime zone (nineOClock (getFullYear zone ref + 1) month dd)"
    and "offsetsWithin zone v" and "v \<le> 9 * msPerHour"
  shows "\<exists>t. getNextBirthdayDate zone b ref = Some t
           \<and> ref < t
           \<and> getHours zone t = 9 \<and> getMinutes zone t = 0 \<and> getSeconds zone t = 0
           \<and> getMilliseconds zone t = 0
           \<and> (getFullYear zone t = getFullYear zone ref
                \<or> getFullYear zone t = getFullYear zone ref + 1)
           \<and> t - ref \<le> 366 * msPerDay + v
           \<and> (dd \<le> DaysInMonth (getFullYear zone t) (month - 1)
                \<longrightarrow> getMonth zone t = month - 1 \<and> getDate zone t = dd)
           \<and> (DaysInMonth (getFullYear zone t) (month - 1) < dd
                \<longrightarrow> getMonth zone t = month
                    \<and> getDate zone t = dd - DaysInMonth (getFullYear zone t) (month - 1))
           \<and> t = (if UTC zone (nineOClock (getFullYear zone ref) month dd) \<le> ref
                  then UTC zone (nineOClock (getFullYear zone ref + 1) month dd)
                  else UTC zone (nineOClock (getFullYear zone ref) month dd))"
proof -
  define y where "y = getFullYear zone ref"
  define l0 where "l0 = nineOClock y month dd"
  define l1 where "l1 = nineOClock (y + 1) month dd"
  define t where "t = (if UTC zone l0 \<le> ref then UTC zone l1 else UTC zone l0)"
  note md = assms(2-5)
  have res: "getNextBirthdayDate zone b ref = Some t"
    unfolding t_def l0_def l1_def y_def by (rule getNextBirthdayDate_ordinary [OF assms(1-6)])
  obtain yt where yt: "t = UTC zone (nineOClock yt month dd)" "yt = y \<or> yt = y + 1"
    and kept: "keepsLocalTime zone (nineOClock yt month dd)"
    using assms(7,8) unfolding t_def l0_def l1_def y_def [symmetric]
    by (cases "UTC zone (nineOClock y month dd) \<le> ref") simp_all
  have local: "LocalTime zone ref = ref + zone ref True" by (simp add: LocalTime_def)
  have u0: "UTC zone l0 = l0 - zone l0 False" and u1: "UTC zone l1 = l1 - zone l1 False"
    by (simp_all add: UTC_def)
  have nine: "LocalTime zone ref + 9 * msPerHour < l1"
    unfolding l1_def y_def by (rule reference_before_next_year [OF md])
  have year0: "l0 - LocalTime zone ref \<le> 366 * msPerDay"
    unfolding l0_def y_def by (rule this_year_within_366 [OF md])
  have year1: "l1 \<le> l0 + 366 * msPerDay"
    unfolding l0_def l1_def by (rule next_year_within_366 [OF assms(2,3)])
  have after: "ref < t"
  proof (cases "UTC zone l0 \<le> ref")
    case True
    have "zone l1 False \<le> zone ref True + v" by (rule offsetsWithin_le [OF assms(9)])
    then have "ref < UTC zone l1" using nine assms(10) unfolding local u1 by linarith
    then show ?thesis using True by (simp add: t_def)
  next
    case False
    then show ?thesis by (simp add: t_def)
  qed
  have near: "t - ref \<le> 366 * msPerDay + v"
  proof (cases "UTC zone l0 \<le> ref")
    case True
    have "zone l0 False \<le> zone l1 False + v" by (rule offsetsWithin_le [OF assms(9)])
    then have "UTC zone l1 - ref \<le> 366 * msPerDay + v"
      using True year1 unfolding u0 u1 by linarith
    then show ?thesis using True by (simp add: t_def)
  next
    case False
    have "zone ref True \<le> zone l0 False + v" by (rule offsetsWithin_le [OF assms(9)])
    then have "UTC zone l0 - ref \<le> 366 * msPerDay + v"
      using year0 unfolding local u0 by linarith
    then show ?thesis using False by (simp add: t_def)
  qed
  note g = getters_nineOClock [OF md kept, folded yt(1)]
  have md1: "dd \<le> DaysInMonth (getFullYear zone t) (month - 1)
              \<longrightarrow> getMonth zone t = month - 1 \<and> getDate zone t = dd"
    unfolding g(1) using getters_month_date [OF assms(2-4) _ kept] unfolding yt(1) by simp
  have md2: "DaysInMonth (getFullYear zone t) (month - 1) < dd
              \<longrightarrow> getMonth zone t = month
                  \<and> getDate zone t = dd - DaysInMonth (getFullYear zone t) (month - 1)"
    unfolding g(1) using getters_rollover [OF assms(2,3) _ assms(5) kept] unfolding yt(1) by simp
  have yr: "getFullYear zone t = y \<or> getFullYear zone t = y + 1"
    using g(1) yt(2) by simp
  show ?thesis
    apply (rule exI [of _ t])
    unfolding y_def [symmetric] l0_def [symmetric] l1_def [symmetric]
    using res after near md1 md2 yr g(2-5)
    by (simp add: t_def)
qed

text \<open>
  The theorem at a reference in a zone with daylight saving: on 4 November 2023 at 09:00
  local time in the zone of New York, the next fire instant for the birthday 11-04 is 09:00
  local time on 4 November 2024, which is 366 days and one hour later.
\<close>

theorem getNextBirthdayDate_next_fire_witness:
  "getNextBirthdayDate easternTime ''11-04'' 1699102800000 = Some 1730728800000
   \<and> 1730728800000 - 1699102800000 = 366 * msPerDay + msPerHour
   \<and> getHours easternTime 1730728800000 = 9
   \<and> getFullYear easternTime 1730728800000 = getFullYear easternTime 1699102800000 + 1
   \<and> getMonth easternTime 1730728800000 = 10 \<and> getDate easternTime 1730728800000 = 4"
proof -
  note r = ordinary_eastern
  have v: "msPerHour \<le> 9 * msPerHour" by (simp add: msPerHour_def)
  have k: "keepsLocalTime easternTime (nineOClock (getFullYear easternTime 1699102800000) 11 4)"
    "keepsLocalTime easternTime (nineOClock (getFullYear easternTime 1699102800000 + 1) 11 4)"
    by (simp_all add: easternTime_2023)
  obtain t where t: "getNextBirthdayDate easternTime ''11-04'' 1699102800000 = Some t"
      "getHours easternTime t = 9"
      "getFullYear easternTime t = getFullYear easternTime 1699102800000
        \<or> getFullYear easternTime t = getFullYear easternTime 1699102800000 + 1"
      "4 \<le> DaysInMonth (getFullYear easternTime t) (11 - 1)
        \<longrightarrow> getMonth easternTime t = 11 - 1 \<and> getDate easternTime t = 4"
    using getNextBirthdayDate_next_fire [OF easternTime_2023(4) _ _ _ _ r k
        easternTime_offsets(2) v]
    by auto
  have e: "t = 1730728800000" using t(1) by (simp add: easternTime_2023(5))
  have y: "getFullYear easternTime 1730728800000 = 2024" by code_simp
  show ?thesis
    using t(2,4) unfolding e
    by (simp add: easternTime_2023 y DaysInMonth_def msPerDay_def msPerHour_def)
qed

text \<open>
  C2 as stated fails: for month 2 and day 30 the result is 2 March (month index 2, date 2),
  not a day of February; for a reference in the year 50 the Date constructor reads the year
  as 1950, so the result is neither in the year 50 nor in the year 51; and for the last
  instant that a Date can hold the result is the Invalid Date.
\<close>

theorem getNextBirthdayDate_given_day_counterexample:
  "parseMMDD ''02-30'' = Some (2, 30)
   \<and> getNextBirthdayDate (fixedOffset 0) ''02-30'' 1710489600000 = Some 1740906000000
   \<and> toISOString 1740906000000 = ''2025-03-02T09:00:00.000Z''
   \<and> getMonth (fixedOffset 0) 1740906000000 = 2 \<and> getDate (fixedOffset 0) 1740906000000 = 2
   \<and> getFullYear (fixedOffset 0) (- 60589296000000) = 50
   \<and> getNextBirthdayDate (fixedOffset 0) ''03-15'' (- 60589296000000) = Some (- 624812400000)
   \<and> getFullYear (fixedOffset 0) (- 624812400000) = 1950
   \<and> getNextBirthdayDate (fixedOffset 0) ''03-15'' 8640000000000000 = None"
  by code_simp

text \<open>
  C10. For the birthday 02-29, whenever the returned date falls in a year that is not a leap
  year, it is 1 March (month index 2, date 1) at 09:00:00.000 local time: the day that
  February lacks rolls forward; it is not clamped to 28 February. The zone is any zone whose
  clock keeps 09:00 of that day.
\<close>

theorem getNextBirthdayDate_feb29_rolls_forward:
  assumes "parseMMDD b = Some (2, 29)"
    and "getNextBirthdayDate zone b ref = Some t"
    and "\<not> isLeapYear (getFullYear zone t)"
    and "\<forall>y. keepsLocalTime zone (nineOClock y 2 29)"
  shows "getMonth zone t = 2 \<and> getDate zone t = 1 \<and> getHours zone t = 9
           \<and> getMinutes zone t = 0 \<and> getSeconds zone t = 0 \<and> getMilliseconds zone t = 0
           \<and> t = UTC zone (nineOClock (getFullYear zone t) 3 1)"
proof -
  obtain yr where t: "t = UTC zone (nineOClock yr 2 29)"
    using getNextBirthdayDate_shape [OF assms(1,2)] by blast
  have kept: "keepsLocalTime zone (nineOClock yr 2 29)" using assms(4) by simp
  have g: "getFullYear zone t = yr" "getHours zone t = 9" "getMinutes zone t = 0"
      "getSeconds zone t = 0" "getMilliseconds zone t = 0"
    unfolding t by (rule getters_nineOClock [OF _ _ _ _ kept]; simp)+
  have nl: "\<not> isLeapYear yr" using assms(3) unfolding g(1) .
  have "LocalTime zone t = nineOClock yr 2 29"
    using kept by (simp add: t keepsLocalTime_def)
  then have "getMonth zone t = 2" "getDate zone t = 1"
    using nineOClock_feb29(1,2) [OF nl] by (simp_all add: getMonth_def getDate_def)
  moreover have "t = UTC zone (nineOClock yr 3 1)"
    unfolding t using nineOClock_feb29(3) [OF nl] by simp
  ultimately show ?thesis using g by simp
qed

theorem getNextBirthdayDate_feb29_rolls_forward_witness:
  "getNextBirthdayDate (fixedOffset 0) ''02-29'' 1736500000000 = Some 1740819600000
   \<and> \<not> isLeapYear (getFullYear (fixedOffset 0) 1740819600000)
   \<and> toISOString 1740819600000 = ''2025-03-01T09:00:00.000Z''
   \<and> getMonth (fixedOffset 0) 1740819600000 = 2 \<and> getDate (fixedOffset 0) 1740819600000 = 1
   \<and> getHours (fixedOffset 0) 1740819600000 = 9"
proof -
  have p: "parseMMDD ''02-29'' = Some (2, 29)" by code_simp
  have r: "getNextBirthdayDate (fixedOffset 0) ''02-29'' 1736500000000 = Some 1740819600000"
    by code_simp
  have l: "\<not> isLeapYear (getFullYear (fixedOffset 0) 1740819600000)" by code_simp
  have s: "toISOString 1740819600000 = ''2025-03-01T09:00:00.000Z''" by code_simp
  have k: "\<forall>y. keepsLocalTime (fixedOffset 0) (nineOClock y 2 29)" by simp
  show ?thesis
    using getNextBirthdayDate_feb29_rolls_forward [OF p r l k] r l s by simp
qed
text \<open>
  C8. Deleting a subject that exists returns true, keeps every message record in its place,
  turns each of that subject's messages whose status is \<open>Scheduled\<close> into the same record
  with status \<open>Cancelled\<close>, and leaves every other message exactly as it was.
\<close>

theorem removeContact_cascade:
  assumes "\<exists>c \<in> set (getContacts w). contact_id c = i"
  shows "fst (removeContact i w) = True
         \<and> length (getMessages (snd (removeContact i w))) = length (getMessages w)
         \<and> (\<forall>k < length (getMessages w).
               getMessages (snd (removeContact i w)) ! k =
                 (if contactId (getMessages w ! k) = i \<and> status (getMessages w ! k) = Scheduled
                  then (getMessages w ! k)\<lparr>status := Cancelled\<rparr>
                  else getMessages w ! k))"
proof -
  obtain idx where "findIndex (\<lambda>c. contact_id c = i) (contacts (dataFile w)) = Some idx"
    using findIndex_exists [of "contacts (dataFile w)" "\<lambda>c. contact_id c = i"] assms
    by (auto simp: getContacts_def loadData_def)
  then show ?thesis
    by (simp add: removeContact_def getMessages_def loadData_def saveData_def Let_def)
qed

theorem removeContact_cascade_witness:
  "fst (removeContact ''c1''
          (exampleWorld ''03-15''
             [exampleMessage ''m1'' ''c1'' Scheduled, exampleMessage ''m2'' ''c1'' Sent,
              exampleMessage ''m3'' ''c2'' Scheduled] [])) = True
   \<and> getMessages (snd (removeContact ''c1''
          (exampleWorld ''03-15''
             [exampleMessage ''m1'' ''c1'' Scheduled, exampleMessage ''m2'' ''c1'' Sent,
              exampleMessage ''m3'' ''c2'' Scheduled] [])))
       = [exampleMessage ''m1'' ''c1'' Cancelled, exampleMessage ''m2'' ''c1'' Sent,
          exampleMessage ''m3'' ''c2'' Scheduled]"
proof -
  let ?w = "exampleWorld ''03-15''
             [exampleMessage ''m1'' ''c1'' Scheduled, exampleMessage ''m2'' ''c1'' Sent,
              exampleMessage ''m3'' ''c2'' Scheduled] []"
  have c: "\<exists>c \<in> set (getContacts ?w). contact_id c = ''c1''" by simp
  show ?thesis
    using removeContact_cascade [OF c]
    by (simp add: getMessages_removeContact exampleMessage_def)
qed

text \<open>
  C1. Starting from a store in which no (subject id, recurrence year) pair has two scheduled
  messages, the same holds after every operation of every sequence of operations:
  \<open>scheduleMessagesForContact\<close>, \<open>scheduleAllContacts\<close>, dispatch cycles, and also
  cancellation, subject deletion, send-now and the delayed delivered-update.
\<close>

theorem atMostOneScheduled_invariant:
  assumes "atMostOneScheduled (getMessages w)"
  shows "\<forall>k \<le> length ops. atMostOneScheduled (getMessages (run env (take k ops) w))"
  using atMostOneScheduled_run [OF assms] by simp

theorem atMostOneScheduled_invariant_witness:
  "atMostOneScheduled (getMessages (exampleWorld ''03-15'' [exampleMessage ''m1'' ''c1'' Scheduled] []))
   \<and> atMostOneScheduled
        (getMessages
           (run (exampleEnv 0 1710496800000 NoResult)
              [ScheduleAll, DispatchCycle, EnsureScheduled ''c1'']
              (exampleWorld ''03-15'' [exampleMessage ''m1'' ''c1'' Scheduled] [])))"
proof -
  have h: "atMostOneScheduled
             (getMessages (exampleWorld ''03-15'' [exampleMessage ''m1'' ''c1'' Scheduled] []))"
    by (simp add: atMostOneScheduled_def scheduledKeys_def)
  have "(3::nat) \<le> length [ScheduleAll, DispatchCycle, EnsureScheduled ''c1'']" by simp
  then show ?thesis
    using atMostOneScheduled_invariant [OF h, of "[ScheduleAll, DispatchCycle, EnsureScheduled ''c1'']"
        "exampleEnv 0 1710496800000 NoResult"] h
    by (metis take_all_iff order_refl eq_imp_le)
qed

text \<open>
  C3. For an existing subject with a valid birthday, when the clock does not go back and the
  second call happens before the fire instant computed by the first, the second call of
  \<open>scheduleMessagesForContact\<close> returns the same record as the first (so the same id),
  a scheduled message of the store, and leaves the list of messages as the first call left it.
  The zone is any zone, with or without daylight saving, in which the local year does not
  decrease as time passes and no clock change skips 09:00 of the birthday in the year of the
  first call or the next.
\<close>

theorem scheduleMessagesForContact_idempotent:
  assumes c: "find (\<lambda>c. contact_id c = cId) (getContacts w) = Some contact"
    and p: "parseMMDD (birthday contact) = Some (month, dd)"
    and md: "1 \<le> month" "month \<le> 12" "1 \<le> dd" "dd \<le> 31"
    and r: "ordinaryReference (localTZA env) (clock env (tick w))"
    and z: "yearNeverGoesBack (localTZA env)"
      "keepsLocalTime (localTZA env)
         (nineOClock (getFullYear (localTZA env) (clock env (tick w))) month dd)"
      "keepsLocalTime (localTZA env)
         (nineOClock (getFullYear (localTZA env) (clock env (tick w)) + 1) month dd)"
    and f: "getNextBirthdayDate (localTZA env) (birthday contact) (clock env (tick w)) = Some fire"
    and t: "clock env (tick w) \<le> clock env (tick (snd (scheduleMessagesForContact env cId w)))"
           "clock env (tick (snd (scheduleMessagesForContact env cId w))) < fire"
  shows "\<exists>m. fst (scheduleMessagesForContact env cId w) = Returned (Some m)
           \<and> fst (scheduleMessagesForContact env cId (snd (scheduleMessagesForContact env cId w)))
               = Returned (Some m)
           \<and> getMessages (snd (scheduleMessagesForContact env cId
                                 (snd (scheduleMessagesForContact env cId w))))
               = getMessages (snd (scheduleMessagesForContact env cId w))
           \<and> m \<in> set (getMessages (snd (scheduleMessagesForContact env cId w)))
           \<and> status m = Scheduled \<and> contactId m = cId"
proof -
  define w1 where "w1 = snd (scheduleMessagesForContact env cId w)"
  define P :: "ScheduledMessage \<Rightarrow> bool" where "P = (\<lambda>m. contactId m = cId \<and> year m = getFullYear (localTZA env) fire
                            \<and> status m = Scheduled)"
  have c1: "find (\<lambda>c. contact_id c = cId) (getContacts w1) = Some contact"
    using c by (simp add: w1_def)
  have f1: "getNextBirthdayDate (localTZA env) (birthday contact) (clock env (tick w1)) = Some fire"
    using getNextBirthdayDate_stable [OF p md r z f] t by (simp add: w1_def)
  have cid: "contact_id contact = cId" using c by (auto simp: find_Some_iff)
  show ?thesis
  proof (cases "find P (getMessages w)")
    case (Some existing)
    have first: "scheduleMessagesForContact env cId w
                   = (Returned (Some existing), w\<lparr>tick := Suc (tick w)\<rparr>)"
      using Some by (intro scheduleMessagesForContact_existing [OF c f]) (simp add: P_def)
    then have m1: "getMessages w1 = getMessages w" by (simp add: w1_def)
    have second: "scheduleMessagesForContact env cId w1
                    = (Returned (Some existing), w1\<lparr>tick := Suc (tick w1)\<rparr>)"
      using Some by (intro scheduleMessagesForContact_existing [OF c1 f1]) (simp add: P_def m1)
    have "existing \<in> set (getMessages w)" "P existing"
      using Some by (auto simp: find_Some_iff)
    then show ?thesis
      unfolding w1_def [symmetric] using first second m1 by (auto simp: P_def)
  next
    case None
    define m where "m = newMessage env contact fire (tick w)"
    have first: "scheduleMessagesForContact env cId w
                   = (Returned (Some m), addMessage m (w\<lparr>tick := Suc (Suc (Suc (Suc (tick w))))\<rparr>))"
      unfolding m_def using None
      by (intro scheduleMessagesForContact_created [OF c f]) (simp add: P_def)
    then have m1: "getMessages w1 = getMessages w @ [m]" by (simp add: w1_def)
    have Pm: "P m" by (simp add: P_def m_def newMessage_def cid)
    have "find P (getMessages w @ [m]) = Some m"
      using None Pm by (simp add: find_snoc)
    then have second: "scheduleMessagesForContact env cId w1
                    = (Returned (Some m), w1\<lparr>tick := Suc (tick w1)\<rparr>)"
      by (intro scheduleMessagesForContact_existing [OF c1 f1]) (simp add: P_def m1)
    show ?thesis
      unfolding w1_def [symmetric] using first second m1 Pm by (auto simp: P_def)
  qed
qed

text \<open>
  The theorem across a daylight-saving change: two calls on 4 November 2023 at 09:00 local
  time in the zone of New York, for the birthday 11-04, return the same record, scheduled
  for 4 November 2024.
\<close>

theorem scheduleMessagesForContact_idempotent_witness:
  "\<exists>m. fst (scheduleMessagesForContact (easternEnv 1699102800000 NoResult) ''c1''
              (exampleWorld ''11-04'' [] [])) = Returned (Some m)
     \<and> fst (scheduleMessagesForContact (easternEnv 1699102800000 NoResult) ''c1''
              (snd (scheduleMessagesForContact (easternEnv 1699102800000 NoResult) ''c1''
                      (exampleWorld ''11-04'' [] [])))) = Returned (Some m)
     \<and> length (getMessages
           (snd (scheduleMessagesForContact (easternEnv 1699102800000 NoResult) ''c1''
              (snd (scheduleMessagesForContact (easternEnv 1699102800000 NoResult) ''c1''
                      (exampleWorld ''11-04'' [] [])))))) = 1"
proof -
  let ?env = "easternEnv 1699102800000 NoResult"
  let ?w = "exampleWorld ''11-04'' [] []"
  have c: "find (\<lambda>c. contact_id c = ''c1'') (getContacts ?w) = Some (exampleContact ''11-04'')" by simp
  have p: "parseMMDD (birthday (exampleContact ''11-04'')) = Some (11, 4)"
    by (simp add: easternTime_2023)
  have r: "ordinaryReference (localTZA ?env) (clock ?env (tick ?w))"
    using ordinary_eastern by simp
  have z: "yearNeverGoesBack (localTZA ?env)"
    "keepsLocalTime (localTZA ?env) (nineOClock (getFullYear (localTZA ?env) (clock ?env (tick ?w))) 11 4)"
    "keepsLocalTime (localTZA ?env) (nineOClock (getFullYear (localTZA ?env) (clock ?env (tick ?w)) + 1) 11 4)"
    by (simp_all add: yearNeverGoesBack_easternTime easternTime_2023)
  have f: "getNextBirthdayDate (localTZA ?env) (birthday (exampleContact ''11-04'')) (clock ?env (tick ?w))
             = Some 1730728800000"
    by (simp add: easternTime_2023)
  have n: "find (\<lambda>m. contactId m = ''c1'' \<and> year m = getFullYear (localTZA ?env) 1730728800000
                      \<and> status m = Scheduled) (getMessages ?w) = None"
    by simp
  note first = scheduleMessagesForContact_created [OF c f n]
  have t: "clock ?env (tick ?w) \<le> clock ?env (tick (snd (scheduleMessagesForContact ?env ''c1'' ?w)))"
     "clock ?env (tick (snd (scheduleMessagesForContact ?env ''c1'' ?w))) < 1730728800000"
    unfolding first by simp_all
  have len: "length (getMessages (snd (scheduleMessagesForContact ?env ''c1'' ?w))) = 1"
    unfolding first by simp
  show ?thesis
    using scheduleMessagesForContact_idempotent [OF c p _ _ _ _ r z f t] len by auto
qed
text \<open>
  C5 (as amended). A record stored by scheduleMessagesForContact holds in scheduledFor the
  ISO text of the fire instant and in year the local calendar year of that instant; the year
  component of the text is the instant's UTC year, and it equals the stored year whenever
  the zone offset in force at the fire instant is above -15 h and at most +9 h (for a
  birthday of month 1..12 and day 1..31 whose 09:00 no clock change of the zone skips). A record stored by send-now holds in scheduledFor the ISO text of one clock reading
  and in year the local calendar year of the clock reading taken two reads later.
\<close>

theorem stored_year_is_local_year:
  "(scheduleMessagesForContact env cId w = (Returned (Some m), w')
      \<longrightarrow> getMessages w' = getMessages w @ [m]
      \<longrightarrow> (\<exists>t. scheduledFor m = toISOString t \<and> year m = getFullYear (localTZA env) t
               \<and> isoYearComponent (scheduledFor m) = Some (YearFromTime t)
               \<and> (\<forall>contact month dd.
                     find (\<lambda>c. contact_id c = cId) (getContacts w) = Some contact
                     \<longrightarrow> parseMMDD (birthday contact) = Some (month, dd)
                     \<longrightarrow> 1 \<le> month \<longrightarrow> month \<le> 12 \<longrightarrow> 1 \<le> dd \<longrightarrow> dd \<le> 31
                     \<longrightarrow> (\<forall>y. keepsLocalTime (localTZA env) (nineOClock y month dd))
                     \<longrightarrow> - 15 * msPerHour < localTZA env t True
                     \<longrightarrow> localTZA env t True \<le> 9 * msPerHour
                     \<longrightarrow> isoYearComponent (scheduledFor m) = Some (year m))))
   \<and> (cId \<noteq> [] \<longrightarrow> find (\<lambda>c. contact_id c = cId) (getContacts w) \<noteq> None
      \<longrightarrow> (\<exists>k. tick w \<le> k
             \<and> length (getMessages (snd (sendNow env s cId bp w))) = Suc (length (getMessages w))
             \<and> scheduledFor (getMessages (snd (sendNow env s cId bp w)) ! length (getMessages w))
                 = toISOString (clock env (Suc k))
             \<and> year (getMessages (snd (sendNow env s cId bp w)) ! length (getMessages w))
                 = getFullYear (localTZA env) (clock env (Suc (Suc (Suc k))))))"
proof (intro conjI impI)
  assume a: "scheduleMessagesForContact env cId w = (Returned (Some m), w')"
    and b: "getMessages w' = getMessages w @ [m]"
  obtain contact nb where c: "find (\<lambda>c. contact_id c = cId) (getContacts w) = Some contact"
    and nb: "getNextBirthdayDate (localTZA env) (birthday contact) (clock env (tick w)) = Some nb"
    and m: "m = newMessage env contact nb (tick w)"
    using scheduleMessagesForContact_appended [OF a b] by blast
  have f: "scheduledFor m = toISOString nb" "year m = getFullYear (localTZA env) nb"
    by (simp_all add: m newMessage_def)
  have iso: "isoYearComponent (scheduledFor m) = Some (YearFromTime nb)"
    unfolding f(1)
    by (intro isoYearComponent_toISOString YearFromTime_valid getNextBirthdayDate_valid [OF nb])
  have "isoYearComponent (scheduledFor m) = Some (year m)"
    if h: "find (\<lambda>c. contact_id c = cId) (getContacts w) = Some contact'"
      "parseMMDD (birthday contact') = Some (month, dd)"
      "1 \<le> month" "month \<le> 12" "1 \<le> dd" "dd \<le> 31"
      "\<forall>y. keepsLocalTime (localTZA env) (nineOClock y month dd)"
      "- 15 * msPerHour < localTZA env nb True" "localTZA env nb True \<le> 9 * msPerHour"
    for contact' month dd
  proof -
    have same: "contact' = contact" using h(1) c by simp
    obtain yr where yr: "nb = UTC (localTZA env) (nineOClock yr month dd)"
      using getNextBirthdayDate_shape [OF h(2) [unfolded same] nb] by blast
    have k: "keepsLocalTime (localTZA env) (nineOClock yr month dd)" using h(7) by simp
    define off where "off = localTZA env (nineOClock yr month dd) False"
    have "localTZA env nb True = off"
      unfolding yr off_def by (rule keepsLocalTime_offset [OF k])
    then have off: "- 15 * msPerHour < off" "off \<le> 9 * msPerHour" using h(8,9) by simp_all
    have "YearFromTime (nineOClock yr month dd - off) = yr"
      by (rule YearFromTime_nineOClock_utc [OF h(3-6) off])
    then have "YearFromTime nb = yr" by (simp add: yr UTC_def off_def)
    moreover have "getFullYear (localTZA env) nb = yr"
      unfolding yr by (rule getters_nineOClock(1) [OF h(3-6) k])
    ultimately show ?thesis using iso f(2) by simp
  qed
  then show "\<exists>t. scheduledFor m = toISOString t \<and> year m = getFullYear (localTZA env) t
               \<and> isoYearComponent (scheduledFor m) = Some (YearFromTime t)
               \<and> (\<forall>contact month dd.
                     find (\<lambda>c. contact_id c = cId) (getContacts w) = Some contact
                     \<longrightarrow> parseMMDD (birthday contact) = Some (month, dd)
                     \<longrightarrow> 1 \<le> month \<longrightarrow> month \<le> 12 \<longrightarrow> 1 \<le> dd \<longrightarrow> dd \<le> 31
                     \<longrightarrow> (\<forall>y. keepsLocalTime (localTZA env) (nineOClock y month dd))
                     \<longrightarrow> - 15 * msPerHour < localTZA env t True
                     \<longrightarrow> localTZA env t True \<le> 9 * msPerHour
                     \<longrightarrow> isoYearComponent (scheduledFor m) = Some (year m))"
    using f iso by (intro exI [of _ nb]) blast
next
  assume "cId \<noteq> []" and "find (\<lambda>c. contact_id c = cId) (getContacts w) \<noteq> None"
  then obtain contact where c: "find (\<lambda>c. contact_id c = cId) (getContacts w) = Some contact"
    by auto
  show "\<exists>k. tick w \<le> k
             \<and> length (getMessages (snd (sendNow env s cId bp w))) = Suc (length (getMessages w))
             \<and> scheduledFor (getMessages (snd (sendNow env s cId bp w)) ! length (getMessages w))
                 = toISOString (clock env (Suc k))
             \<and> year (getMessages (snd (sendNow env s cId bp w)) ! length (getMessages w))
                 = getFullYear (localTZA env) (clock env (Suc (Suc (Suc k))))"
    using sendNow_record [OF \<open>cId \<noteq> []\<close> c, of env s bp]
    by (intro exI [of _ "if whenTruthy bp = None then Suc (tick w) else tick w"]) simp
qed

text \<open>
  C5 as stated fails. In a zone ten hours east of UTC the record scheduled for the birthday
  01-01 has year 2025 and scheduledFor 2024-12-31T23:00:00.000Z; in a zone five hours west
  a send-now at 2025-01-01T01:00Z stores year 2024 with a scheduledFor text of 2025.
\<close>

theorem stored_year_counterexample:
  "map_option year
      (returnedMessage (fst (scheduleMessagesForContact (exampleEnv 36000000 1710489600000 NoResult)
          ''c1'' (exampleWorld ''01-01'' [] [])))) = Some 2025
   \<and> map_option scheduledFor
      (returnedMessage (fst (scheduleMessagesForContact (exampleEnv 36000000 1710489600000 NoResult)
          ''c1'' (exampleWorld ''01-01'' [] [])))) = Some ''2024-12-31T23:00:00.000Z''
   \<and> isoYearComponent ''2024-12-31T23:00:00.000Z'' = Some 2024
   \<and> year (getMessages (snd (sendNow (exampleEnv (- 18000000) 1735693200000 NoResult) ''s1'' ''c1''
          (Some ''Hi'') (exampleWorld ''01-01'' [] []))) ! 0) = 2024
   \<and> scheduledFor (getMessages (snd (sendNow (exampleEnv (- 18000000) 1735693200000 NoResult) ''s1''
          ''c1'' (Some ''Hi'') (exampleWorld ''01-01'' [] []))) ! 0) = ''2025-01-01T01:00:01.000Z''
   \<and> isoYearComponent ''2025-01-01T01:00:01.000Z'' = Some 2025"
proof -
  let ?env = "exampleEnv 36000000 1710489600000 NoResult"
  let ?w = "exampleWorld ''01-01'' [] []"
  have c: "find (\<lambda>c. contact_id c = ''c1'') (getContacts ?w) = Some (exampleContact ''01-01'')"
    by simp
  have f: "getNextBirthdayDate (localTZA ?env) (birthday (exampleContact ''01-01''))
             (clock ?env (tick ?w)) = Some 1735686000000"
    by (simp add: next_new_year_plus10)
  have n: "find (\<lambda>m. contactId m = ''c1'' \<and> year m = getFullYear (localTZA ?env) 1735686000000
                      \<and> status m = Scheduled) (getMessages ?w) = None"
    by simp
  note first = scheduleMessagesForContact_created [OF c f n]
  have w: "whenTruthy (Some ''Hi'') \<noteq> None" by (simp add: whenTruthy_def)
  have ne: "''c1'' \<noteq> []" by simp
  note now = sendNow_record [OF ne c, of "exampleEnv (- 18000000) 1735693200000 NoResult" "''s1''" "Some ''Hi''"]
  show ?thesis
    unfolding first using now w
    by (simp add: returnedMessage_def newMessage_def next_new_year_plus10 send_now_minus5)
qed

theorem stored_year_is_local_year_witness:
  "\<exists>m w'. scheduleMessagesForContact (exampleEnv 0 1710496800000 NoResult) ''c1''
             (exampleWorld ''03-15'' [] []) = (Returned (Some m), w')
     \<and> getMessages w' = getMessages (exampleWorld ''03-15'' [] []) @ [m]
     \<and> year m = 2025
     \<and> isoYearComponent (scheduledFor m) = Some (year m)
     \<and> length (getMessages (snd (sendNow (exampleEnv 0 1710496800000 NoResult) ''s1'' ''c1''
          (Some ''Hi'') (exampleWorld ''03-15'' [] [])))) = 1"
proof -
  let ?env = "exampleEnv 0 1710496800000 NoResult"
  let ?w = "exampleWorld ''03-15'' [] []"
  let ?m = "newMessage ?env (exampleContact ''03-15'') 1742029200000 (tick ?w)"
  let ?w' = "addMessage ?m (?w\<lparr>tick := Suc (Suc (Suc (Suc (tick ?w))))\<rparr>)"
  have c: "find (\<lambda>c. contact_id c = ''c1'') (getContacts ?w) = Some (exampleContact ''03-15'')"
    by simp
  have f: "getNextBirthdayDate (localTZA ?env) (birthday (exampleContact ''03-15''))
             (clock ?env (tick ?w)) = Some 1742029200000"
    by (simp add: next_after_cutoff)
  have n: "find (\<lambda>m. contactId m = ''c1'' \<and> year m = getFullYear (localTZA ?env) 1742029200000
                      \<and> status m = Scheduled) (getMessages ?w) = None"
    by simp
  have a: "scheduleMessagesForContact ?env ''c1'' ?w = (Returned (Some ?m), ?w')"
    by (rule scheduleMessagesForContact_created [OF c f n])
  have b: "getMessages ?w' = getMessages ?w @ [?m]" by simp
  have p: "parseMMDD (birthday (exampleContact ''03-15'')) = Some (3, 15)"
    by (simp add: parse_0315)
  have z: "\<forall>y. keepsLocalTime (localTZA ?env) (nineOClock y 3 15)"
    "- 15 * msPerHour < localTZA ?env t True" "localTZA ?env t True \<le> 9 * msPerHour" for t
    by (simp_all add: msPerHour_def)
  have ne: "''c1'' \<noteq> []" "find (\<lambda>c. contact_id c = ''c1'') (getContacts ?w) \<noteq> None"
    using c by simp_all
  have y: "year ?m = 2025" by (simp add: newMessage_def year_2025)
  have "isoYearComponent (scheduledFor ?m) = Some (year ?m)"
    "length (getMessages (snd (sendNow ?env ''s1'' ''c1'' (Some ''Hi'') ?w))) = 1"
    using stored_year_is_local_year [of ?env "''c1''" ?w ?m ?w' "''s1''" "Some ''Hi''"] a b c p z ne
    by auto
  then show ?thesis using a b y by blast
qed

text \<open>
  C7. In a dispatch cycle over a store whose only due message is the one at index \<open>i\<close>,
  when the send fails, the cycle completes, the message has status \<open>Failed\<close> and the error
  text of the send result, word for word, every other message and the number of messages
  are as before (no message is created), and nothing is read from the clock or the provider
  after the failed send (no second attempt).
\<close>

theorem dispatch_failure_recorded:
  assumes i: "i < length (getMessages w)"
    and due: "isDue (clock env (tick w)) (getMessages w ! i)"
    and others: "\<forall>j < length (getMessages w). j \<noteq> i
                   \<longrightarrow> \<not> isDue (clock env (tick w)) (getMessages w ! j)"
    and first: "\<forall>j < i. message_id (getMessages w ! j) \<noteq> message_id (getMessages w ! i)"
    and send: "sendBirthdaySms env (getFirstActiveClient w) ''scheduler''
                 (contactId (getMessages w ! i)) (phone (getMessages w ! i))
                 (messageBody (getMessages w ! i))
                 (updateMessage (message_id (getMessages w ! i))
                    (noUpdates\<lparr>upd_status := Some Sending\<rparr>) (w\<lparr>tick := Suc (tick w)\<rparr>))
               = (result, w2)"
    and fail: "\<not> success result"
  shows "fst (processDueMessages env w) = Returned ()
         \<and> getMessages (snd (processDueMessages env w))
             = (getMessages w)[i := (getMessages w ! i)\<lparr>status := Failed, errorMessage := error result\<rparr>]
         \<and> tick (snd (processDueMessages env w)) = tick w2
         \<and> timers (snd (processDueMessages env w)) = timers w"
proof -
  let ?w1 = "w\<lparr>tick := Suc (tick w)\<rparr>"
  have i1: "i < length (getMessages ?w1)" using i by simp
  have f1: "\<forall>j < i. message_id (getMessages ?w1 ! j) \<noteq> message_id (getMessages ?w1 ! i)"
    using first by simp
  have s1: "sendBirthdaySms env (getFirstActiveClient w) ''scheduler''
                 (contactId (getMessages w ! i)) (phone (getMessages w ! i))
                 (messageBody (getMessages w ! i))
                 (updateMessage (message_id (getMessages ?w1 ! i))
                    (noUpdates\<lparr>upd_status := Some Sending\<rparr>) ?w1) = (result, w2)"
    using send by simp
  have body: "processDueMessages env w =
      (Returned (),
       updateMessage (message_id (getMessages w ! i))
         (noUpdates\<lparr>upd_status := Some Failed, upd_errorMessage := Some (error result)\<rparr>) w2)"
    unfolding processDueMessages_single [OF i others]
    by (rule processDueBody_failure [OF due send fail])
  have "getMessages (updateMessage (message_id (getMessages ?w1 ! i))
         (noUpdates\<lparr>upd_status := Some Failed, upd_errorMessage := Some (error result)\<rparr>) w2)
        = (getMessages ?w1)[i := applyUpdates (applyUpdates (getMessages ?w1 ! i)
             (noUpdates\<lparr>upd_status := Some Sending\<rparr>))
             (noUpdates\<lparr>upd_status := Some Failed, upd_errorMessage := Some (error result)\<rparr>)]"
    by (rule updateMessage_twice_at(2) [OF i1 f1 s1])
  then show ?thesis
    unfolding body using sendBirthdaySms_frame(3) [OF send]
    by (simp add: applyUpdates_sending applyUpdates_failed)
qed

theorem dispatch_failure_recorded_witness:
  "fst (processDueMessages (exampleEnv 0 1710493260000 (ThrewError ''invalid destination''))
          (exampleWorld ''03-15'' [exampleMessage ''m1'' ''c1'' Scheduled] [(''s1'', exampleBundle)]))
     = Returned ()
   \<and> getMessages
        (snd (processDueMessages (exampleEnv 0 1710493260000 (ThrewError ''invalid destination''))
          (exampleWorld ''03-15'' [exampleMessage ''m1'' ''c1'' Scheduled] [(''s1'', exampleBundle)])))
     = [(exampleMessage ''m1'' ''c1'' Failed)\<lparr>errorMessage := Some ''invalid destination''\<rparr>]"
proof -
  let ?env = "exampleEnv 0 1710493260000 (ThrewError ''invalid destination'')"
  let ?w = "exampleWorld ''03-15'' [exampleMessage ''m1'' ''c1'' Scheduled] [(''s1'', exampleBundle)]"
  let ?w1 = "updateMessage (message_id (getMessages ?w ! 0))
               (noUpdates\<lparr>upd_status := Some Sending\<rparr>) (?w\<lparr>tick := Suc (tick ?w)\<rparr>)"
  let ?result = "\<lparr>success = False, resultSid = None, error = Some ''invalid destination''\<rparr>"
  have i: "0 < length (getMessages ?w)" by simp
  have due: "isDue (clock ?env (tick ?w)) (getMessages ?w ! 0)"
    by (simp add: exampleMessage_due)
  have others: "\<forall>j < length (getMessages ?w). j \<noteq> 0
                   \<longrightarrow> \<not> isDue (clock ?env (tick ?w)) (getMessages ?w ! j)"
    by simp
  have first: "\<forall>j < 0. message_id (getMessages ?w ! j) \<noteq> message_id (getMessages ?w ! 0)"
    by simp
  have send: "sendBirthdaySms ?env (getFirstActiveClient ?w) ''scheduler''
                 (contactId (getMessages ?w ! 0)) (phone (getMessages ?w ! 0))
                 (messageBody (getMessages ?w ! 0)) ?w1
               = (?result, (rememberServiceSid ''scheduler'' ''IS1'' ?w1)\<lparr>tick := Suc (tick ?w1)\<rparr>)"
    by (simp add: sendBirthdaySms_exampleBundle)
  have fail: "\<not> success ?result" by simp
  show ?thesis
    using dispatch_failure_recorded [OF i due others first send fail]
    by (simp add: exampleMessage_def)
qed

text \<open>
  C6 (as amended). In a dispatch cycle over a store whose only due message is the one at
  index \<open>i\<close>, when the send succeeds, the message ends the cycle with status \<open>Sent\<close>, with
  the identifier of the send result as its notificationSid (absent when the result carries
  none) and with a sentAt timestamp, and its delivered-update is pending. When the subject
  still exists and its next birthday is a valid date, the cycle completes and another
  message of that subject with status \<open>Scheduled\<close> exists for the year of that next birthday.
\<close>

theorem dispatch_success_recorded:
  assumes i: "i < length (getMessages w)"
    and due: "isDue (clock env (tick w)) (getMessages w ! i)"
    and others: "\<forall>j < length (getMessages w). j \<noteq> i
                   \<longrightarrow> \<not> isDue (clock env (tick w)) (getMessages w ! j)"
    and first: "\<forall>j < i. message_id (getMessages w ! j) \<noteq> message_id (getMessages w ! i)"
    and send: "sendBirthdaySms env (getFirstActiveClient w) ''scheduler''
                 (contactId (getMessages w ! i)) (phone (getMessages w ! i))
                 (messageBody (getMessages w ! i))
                 (updateMessage (message_id (getMessages w ! i))
                    (noUpdates\<lparr>upd_status := Some Sending\<rparr>) (w\<lparr>tick := Suc (tick w)\<rparr>))
               = (result, w2)"
    and ok: "success result"
  shows "getMessages (snd (processDueMessages env w)) ! i
           = (getMessages w ! i)\<lparr>status := Sent, notificationSid := resultSid result,
                sentAt := Some (toISOString (clock env (tick w2)))\<rparr>
         \<and> message_id (getMessages w ! i) \<in> set (timers (snd (processDueMessages env w)))
         \<and> (\<forall>contact fire.
               find (\<lambda>c. contact_id c = contactId (getMessages w ! i)) (getContacts w) = Some contact
               \<longrightarrow> getNextBirthdayDate (localTZA env) (birthday contact) (clock env (Suc (tick w2)))
                     = Some fire
               \<longrightarrow> fst (processDueMessages env w) = Returned ()
                   \<and> (\<exists>k < length (getMessages (snd (processDueMessages env w))).
                         k \<noteq> i
                         \<and> contactId (getMessages (snd (processDueMessages env w)) ! k)
                             = contactId (getMessages w ! i)
                         \<and> status (getMessages (snd (processDueMessages env w)) ! k) = Scheduled
                         \<and> year (getMessages (snd (processDueMessages env w)) ! k)
                             = getFullYear (localTZA env) fire))"
  using assms by (rule processDueMessages_success)

theorem dispatch_success_recorded_witness:
  "status (getMessages
        (snd (processDueMessages (exampleEnv 0 1710493260000 (NotificationResult (Some ''NT1'')))
          (exampleWorld ''03-15'' [exampleMessage ''m1'' ''c1'' Scheduled] [(''s1'', exampleBundle)])))
        ! 0) = Sent
   \<and> notificationSid (getMessages
        (snd (processDueMessages (exampleEnv 0 1710493260000 (NotificationResult (Some ''NT1'')))
          (exampleWorld ''03-15'' [exampleMessage ''m1'' ''c1'' Scheduled] [(''s1'', exampleBundle)])))
        ! 0) = Some ''NT1''
   \<and> (\<exists>k. k \<noteq> 0
         \<and> status (getMessages
              (snd (processDueMessages (exampleEnv 0 1710493260000 (NotificationResult (Some ''NT1'')))
                (exampleWorld ''03-15'' [exampleMessage ''m1'' ''c1'' Scheduled]
                   [(''s1'', exampleBundle)]))) ! k) = Scheduled
         \<and> year (getMessages
              (snd (processDueMessages (exampleEnv 0 1710493260000 (NotificationResult (Some ''NT1'')))
                (exampleWorld ''03-15'' [exampleMessage ''m1'' ''c1'' Scheduled]
                   [(''s1'', exampleBundle)]))) ! k) = 2025)"
proof -
  let ?env = "exampleEnv 0 1710493260000 (NotificationResult (Some ''NT1''))"
  let ?w = "exampleWorld ''03-15'' [exampleMessage ''m1'' ''c1'' Scheduled] [(''s1'', exampleBundle)]"
  let ?w1 = "updateMessage (message_id (getMessages ?w ! 0))
               (noUpdates\<lparr>upd_status := Some Sending\<rparr>) (?w\<lparr>tick := Suc (tick ?w)\<rparr>)"
  let ?w2 = "(rememberServiceSid ''scheduler'' ''IS1'' ?w1)\<lparr>tick := Suc (tick ?w1)\<rparr>"
  let ?result = "\<lparr>success = True, resultSid = Some ''NT1'', error = None\<rparr>"
  have i: "0 < length (getMessages ?w)" by simp
  have due: "isDue (clock ?env (tick ?w)) (getMessages ?w ! 0)"
    by (simp add: exampleMessage_due)
  have others: "\<forall>j < length (getMessages ?w). j \<noteq> 0
                   \<longrightarrow> \<not> isDue (clock ?env (tick ?w)) (getMessages ?w ! j)"
    by simp
  have first: "\<forall>j < 0. message_id (getMessages ?w ! j) \<noteq> message_id (getMessages ?w ! 0)"
    by simp
  have send: "sendBirthdaySms ?env (getFirstActiveClient ?w) ''scheduler''
                 (contactId (getMessages ?w ! 0)) (phone (getMessages ?w ! 0))
                 (messageBody (getMessages ?w ! 0)) ?w1 = (?result, ?w2)"
    by (simp add: sendBirthdaySms_exampleBundle)
  have ok: "success ?result" by simp
  have c: "find (\<lambda>c. contact_id c = contactId (getMessages ?w ! 0)) (getContacts ?w)
             = Some (exampleContact ''03-15'')"
    by simp
  have f: "getNextBirthdayDate (localTZA ?env) (birthday (exampleContact ''03-15''))
             (clock ?env (Suc (tick ?w2))) = Some 1742029200000"
    by (simp add: next_after_dispatch)
  show ?thesis
    using dispatch_success_recorded [OF i due others first send ok] c f
    by (auto simp: year_2025)
qed

text \<open>
  C6 as stated fails: a provider response whose result carries no sid counts as a success,
  and the message ends the cycle as \<open>Sent\<close> without a notificationSid.
\<close>

theorem dispatch_success_counterexample:
  "success (fst (sendBirthdaySms (exampleEnv 0 1710493260000 (NotificationResult None))
        (Some exampleBundle) ''scheduler'' ''c1'' ''+15551230000'' ''Happy Birthday, Ann!''
        (exampleWorld ''03-15'' [exampleMessage ''m1'' ''c1'' Scheduled] [(''s1'', exampleBundle)])))
   \<and> status (getMessages
        (snd (processDueMessages (exampleEnv 0 1710493260000 (NotificationResult None))
          (exampleWorld ''03-15'' [exampleMessage ''m1'' ''c1'' Scheduled] [(''s1'', exampleBundle)])))
        ! 0) = Sent
   \<and> notificationSid (getMessages
        (snd (processDueMessages (exampleEnv 0 1710493260000 (NotificationResult None))
          (exampleWorld ''03-15'' [exampleMessage ''m1'' ''c1'' Scheduled] [(''s1'', exampleBundle)])))
        ! 0) = None"
proof -
  let ?env = "exampleEnv 0 1710493260000 (NotificationResult None)"
  let ?w = "exampleWorld ''03-15'' [exampleMessage ''m1'' ''c1'' Scheduled] [(''s1'', exampleBundle)]"
  let ?w1 = "updateMessage (message_id (getMessages ?w ! 0))
               (noUpdates\<lparr>upd_status := Some Sending\<rparr>) (?w\<lparr>tick := Suc (tick ?w)\<rparr>)"
  let ?w2 = "(rememberServiceSid ''scheduler'' ''IS1'' ?w1)\<lparr>tick := Suc (tick ?w1)\<rparr>"
  let ?result = "\<lparr>success = True, resultSid = None, error = None\<rparr>"
  have i: "0 < length (getMessages ?w)" by simp
  have due: "isDue (clock ?env (tick ?w)) (getMessages ?w ! 0)"
    by (simp add: exampleMessage_due)
  have others: "\<forall>j < length (getMessages ?w). j \<noteq> 0
                   \<longrightarrow> \<not> isDue (clock ?env (tick ?w)) (getMessages ?w ! j)"
    by simp
  have first: "\<forall>j < 0. message_id (getMessages ?w ! j) \<noteq> message_id (getMessages ?w ! 0)"
    by simp
  have send: "sendBirthdaySms ?env (getFirstActiveClient ?w) ''scheduler''
                 (contactId (getMessages ?w ! 0)) (phone (getMessages ?w ! 0))
                 (messageBody (getMessages ?w ! 0)) ?w1 = (?result, ?w2)"
    by (simp add: sendBirthdaySms_exampleBundle)
  have ok: "success ?result" by simp
  show ?thesis
    using processDueMessages_success [OF i due others first send ok]
    by (simp add: sendBirthdaySms_exampleBundle)
qed

text \<open>
  C9. Without a client bundle the send returns success with the identifier \<open>SIM_\<close> followed
  by the clock reading, which is not empty; and a dispatch cycle without an active client,
  over a store whose only due message is the one at index \<open>i\<close>, leaves that message with
  status \<open>Sent\<close> and that identifier.
\<close>

theorem simulated_send_succeeds:
  "sendBirthdaySms env None sessionId cId phoneE164 body w
     = (\<lparr>success = True, resultSid = Some (''SIM_'' @ showInt (clock env (tick w))), error = None\<rparr>,
        w\<lparr>tick := Suc (tick w)\<rparr>)
   \<and> ''SIM_'' @ showInt (clock env (tick w)) \<noteq> []
   \<and> (getFirstActiveClient w = None
       \<longrightarrow> i < length (getMessages w)
       \<longrightarrow> isDue (clock env (tick w)) (getMessages w ! i)
       \<longrightarrow> (\<forall>j < length (getMessages w). j \<noteq> i
              \<longrightarrow> \<not> isDue (clock env (tick w)) (getMessages w ! j))
       \<longrightarrow> (\<forall>j < i. message_id (getMessages w ! j) \<noteq> message_id (getMessages w ! i))
       \<longrightarrow> status (getMessages (snd (processDueMessages env w)) ! i) = Sent
           \<and> notificationSid (getMessages (snd (processDueMessages env w)) ! i)
               = Some (''SIM_'' @ showInt (clock env (Suc (tick w)))))"
proof (intro conjI impI)
  show "sendBirthdaySms env None sessionId cId phoneE164 body w
     = (\<lparr>success = True, resultSid = Some (''SIM_'' @ showInt (clock env (tick w))), error = None\<rparr>,
        w\<lparr>tick := Suc (tick w)\<rparr>)"
    by (rule sendBirthdaySms_simulated)
  show "''SIM_'' @ showInt (clock env (tick w)) \<noteq> []" by simp
next
  assume none: "getFirstActiveClient w = None"
    and i: "i < length (getMessages w)"
    and due: "isDue (clock env (tick w)) (getMessages w ! i)"
    and others: "\<forall>j < length (getMessages w). j \<noteq> i
              \<longrightarrow> \<not> isDue (clock env (tick w)) (getMessages w ! j)"
    and first: "\<forall>j < i. message_id (getMessages w ! j) \<noteq> message_id (getMessages w ! i)"
  let ?w1 = "updateMessage (message_id (getMessages w ! i))
               (noUpdates\<lparr>upd_status := Some Sending\<rparr>) (w\<lparr>tick := Suc (tick w)\<rparr>)"
  let ?result = "\<lparr>success = True, resultSid = Some (''SIM_'' @ showInt (clock env (tick ?w1))),
                   error = None\<rparr>"
  have send: "sendBirthdaySms env (getFirstActiveClient w) ''scheduler''
                 (contactId (getMessages w ! i)) (phone (getMessages w ! i))
                 (messageBody (getMessages w ! i)) ?w1 = (?result, ?w1\<lparr>tick := Suc (tick ?w1)\<rparr>)"
    unfolding none by (rule sendBirthdaySms_simulated)
  have ok: "success ?result" by simp
  have "getMessages (snd (processDueMessages env w)) ! i
           = (getMessages w ! i)\<lparr>status := Sent, notificationSid := resultSid ?result,
                sentAt := Some (toISOString (clock env (tick (?w1\<lparr>tick := Suc (tick ?w1)\<rparr>))))\<rparr>"
    using processDueMessages_success [OF i due others first send ok] by blast
  then show "status (getMessages (snd (processDueMessages env w)) ! i) = Sent"
    and "notificationSid (getMessages (snd (processDueMessages env w)) ! i)
               = Some (''SIM_'' @ showInt (clock env (Suc (tick w))))"
    by simp_all
qed

theorem simulated_send_succeeds_witness:
  "getFirstActiveClient (exampleWorld ''03-15'' [exampleMessage ''m1'' ''c1'' Scheduled] []) = None
   \<and> status (getMessages
        (snd (processDueMessages (exampleEnv 0 1710493260000 NoResult)
          (exampleWorld ''03-15'' [exampleMessage ''m1'' ''c1'' Scheduled] []))) ! 0) = Sent
   \<and> notificationSid (getMessages
        (snd (processDueMessages (exampleEnv 0 1710493260000 NoResult)
          (exampleWorld ''03-15'' [exampleMessage ''m1'' ''c1'' Scheduled] []))) ! 0)
       = Some ''SIM_1710493261000''"
proof -
  let ?env = "exampleEnv 0 1710493260000 NoResult"
  let ?w = "exampleWorld ''03-15'' [exampleMessage ''m1'' ''c1'' Scheduled] []"
  have none: "getFirstActiveClient ?w = None" by simp
  have i: "0 < length (getMessages ?w)" by simp
  have due: "isDue (clock ?env (tick ?w)) (getMessages ?w ! 0)"
    by (simp add: exampleMessage_due)
  have others: "\<forall>j < length (getMessages ?w). j \<noteq> 0
                   \<longrightarrow> \<not> isDue (clock ?env (tick ?w)) (getMessages ?w ! j)"
    by simp
  have first: "\<forall>j < 0. message_id (getMessages ?w ! j) \<noteq> message_id (getMessages ?w ! 0)"
    by simp
  show ?thesis
    using simulated_send_succeeds [of ?env _ _ _ _ ?w 0] none i due others first
    by (simp add: show_clock)
qed

text \<open>
  C4 fails on the code. The store holds two due scheduled messages, \<open>m1\<close> and \<open>m2\<close>. The
  scheduler starts a dispatch cycle, which sets \<open>m1\<close> to sending and waits for the provider.
  While one cycle waits, \<^verbatim>\<open>POST /api/messages/m2/cancel\<close> is handled: \<open>m2\<close> is scheduled, so it
  becomes cancelled. The send of \<open>m1\<close> settles and the cycle goes on with the list it read at
  its start, in which \<open>m2\<close> is scheduled: it sets \<open>m2\<close> to sending, sends it, and sets it to
  sent. The status of \<open>m2\<close> was cancelled and is changed twice afterwards.
\<close>

theorem dispatch_overwrites_cancelled:
  "length (fst (fireEvents raceEnv [CycleStarts] ([], raceWorld))) = 1
   \<and> statusOf (snd (fireEvents raceEnv [CycleStarts] ([], raceWorld))) ''m2'' = Some Scheduled
   \<and> statusOf (snd (fireEvents raceEnv [CycleStarts, Lands (CancelMessage ''m2'')]
         ([], raceWorld))) ''m2'' = Some Cancelled
   \<and> statusOf (snd (fireEvents raceEnv [CycleStarts, Lands (CancelMessage ''m2''), CycleResumes 0]
         ([], raceWorld))) ''m2'' = Some Sending
   \<and> statusOf (snd (fireEvents raceEnv
         [CycleStarts, Lands (CancelMessage ''m2''), CycleResumes 0, CycleResumes 0]
         ([], raceWorld))) ''m2'' = Some Sent"
proof -
  obtain p w where "fireEvents raceEnv [CycleStarts] ([], raceWorld) = ([p], w)"
    and "statusOf w ''m2'' = Some Scheduled"
    using race_trace(1) by blast
  then show ?thesis using race_trace(2-4) by simp
qed
end
